theory Spec2Isabelle
  imports Complex_Main "HOL-Library.Word"
begin

section \<open>Configuration (config.go)\<close>

text \<open>
  \<^verbatim>\<open>time.Duration\<close> is a signed 64-bit count of nanoseconds and Go's \<^verbatim>\<open>int\<close> is a
  signed 64-bit integer. The validation only compares these values with constants, so they
  are modelled as \<open>int\<close>; no arithmetic is done on them.
\<close>

type_synonym Duration = int

definition Millisecond :: Duration where
  "Millisecond = 1000000"

definition Second :: Duration where
  "Second = 1000000000"

record Config =
  Address :: string
  Username :: string
  Password :: string
  Database :: int
  DialTimeout :: Duration
  ReadTimeout :: Duration
  WriteTimeout :: Duration
  PoolSize :: int
  MinIdleConns :: int
  MaxIdleTime :: Duration
  ConnMaxLifetime :: Duration
  DefaultQueue :: string
  MessageTTL :: Duration
  MaxRetries :: int
  RetryDelay :: Duration
  BreakerMaxRequests :: nat
  BreakerInterval :: Duration
  BreakerTimeout :: Duration
  RateLimitRequests :: int
  RateLimitBurst :: int
  TLSEnabled :: bool
  TLSSkipVerify :: bool
  TLSCertFile :: string
  TLSKeyFile :: string
  TLSCAFile :: string
  LogLevel :: string

text \<open>
  \<^verbatim>\<open>(*Config).validate\<close>: the checks in the order of the source; \<open>None\<close> is the
  \<^verbatim>\<open>nil\<close> error, \<open>Some msg\<close> the error built by \<^verbatim>\<open>fmt.Errorf(msg)\<close>.
\<close>

definition validate :: "Config \<Rightarrow> string option" where
  "validate c =
    (if Address c = [] then Some ''address cannot be empty''
     else if Database c < 0 \<or> Database c > 15 then Some ''database must be between 0 and 15''
     else if DialTimeout c < Millisecond then Some ''dial timeout must be at least 1ms''
     else if ReadTimeout c < Millisecond then Some ''read timeout must be at least 1ms''
     else if WriteTimeout c < Millisecond then Some ''write timeout must be at least 1ms''
     else if PoolSize c < 1 then Some ''pool size must be at least 1''
     else if MinIdleConns c < 0 then Some ''min idle connections cannot be negative''
     else if MinIdleConns c > PoolSize c then Some ''min idle connections cannot exceed pool size''
     else if DefaultQueue c = [] then Some ''default queue name cannot be empty''
     else if MessageTTL c < Second then Some ''message TTL must be at least 1 second''
     else if MaxRetries c < 0 then Some ''max retries cannot be negative''
     else if RetryDelay c < Millisecond then Some ''retry delay must be at least 1ms''
     else if TLSEnabled c \<and> (TLSCertFile c = [] \<or> TLSKeyFile c = [])
       then Some ''TLS cert file and key file are required when TLS is enabled''
     else None)"

text \<open>
  The configuration that \<^verbatim>\<open>LoadConfig\<close> builds when no environment variable is set
  (the default values written in the source).
\<close>

definition defaultConfig :: Config where
  "defaultConfig = \<lparr>
     Address = ''localhost:6379'', Username = [], Password = [], Database = 0,
     DialTimeout = 5 * Second, ReadTimeout = 3 * Second, WriteTimeout = 3 * Second,
     PoolSize = 10, MinIdleConns = 2, MaxIdleTime = 300 * Second,
     ConnMaxLifetime = 3600 * Second,
     DefaultQueue = ''user-registrations'', MessageTTL = 86400 * Second,
     MaxRetries = 3, RetryDelay = Second,
     BreakerMaxRequests = 5, BreakerInterval = 120 * Second, BreakerTimeout = 60 * Second,
     RateLimitRequests = 1000, RateLimitBurst = 2000,
     TLSEnabled = False, TLSSkipVerify = False,
     TLSCertFile = [], TLSKeyFile = [], TLSCAFile = [], LogLevel = ''INFO'' \<rparr>"

text \<open>
  \<^verbatim>\<open>LoadConfig\<close> after the environment has been read into \<open>c\<close>: the configuration is
  returned only when \<open>validate\<close> accepts it.
\<close>

definition LoadConfig :: "Config \<Rightarrow> string + Config" where
  "LoadConfig c =
    (case validate c of
       Some err \<Rightarrow> Inl (''configuration validation failed: '' @ err)
     | None \<Rightarrow> Inr c)"

text \<open>
  The acceptance condition as the specification lists it: address non-empty, database
  index within the store's range, the dial, read and write timeouts at least one
  millisecond, pool size at least one, min idle at most the pool size, default queue
  non-empty, message TTL at least one second, certificate and key when TLS is enabled.
\<close>

definition spec_accepts :: "Config \<Rightarrow> bool" where
  "spec_accepts c \<longleftrightarrow>
     Address c \<noteq> [] \<and> 0 \<le> Database c \<and> Database c \<le> 15 \<and>
     Millisecond \<le> DialTimeout c \<and> Millisecond \<le> ReadTimeout c \<and>
     Millisecond \<le> WriteTimeout c \<and>
     1 \<le> PoolSize c \<and> MinIdleConns c \<le> PoolSize c \<and> DefaultQueue c \<noteq> [] \<and>
     Second \<le> MessageTTL c \<and>
     (TLSEnabled c \<longrightarrow> TLSCertFile c \<noteq> [] \<and> TLSKeyFile c \<noteq> [])"

section \<open>Errors, bytes and the default codec (serializer.go)\<close>

type_synonym byte = "8 word"
type_synonym bytes = "byte list"

text \<open>
  A Go string is a sequence of bytes; \<^verbatim>\<open>[]byte(str)\<close> and \<^verbatim>\<open>string(data)\<close> copy
  the bytes one by one.
\<close>

definition bytes_of_string :: "string \<Rightarrow> bytes" where
  "bytes_of_string s = map (\<lambda>c. of_nat (of_char c)) s"

definition string_of_bytes :: "bytes \<Rightarrow> string" where
  "string_of_bytes b = map (\<lambda>w. char_of (unat w)) b"

text \<open>
  Go error values. \<open>Errorf m\<close> is \<^verbatim>\<open>fmt.Errorf(m)\<close>, \<open>Wrapf m e\<close> is
  \<^verbatim>\<open>fmt.Errorf(m + "%w", e)\<close>; \<open>ErrOpenState\<close> and \<open>ErrTooManyRequests\<close> are the
  two errors of the circuit breaker, \<open>RedisNil\<close> is \<^verbatim>\<open>redis.Nil\<close>.
\<close>

datatype error =
    ErrOpenState
  | ErrTooManyRequests
  | RedisNil
  | Errorf string
  | Wrapf string error

fun Error :: "error \<Rightarrow> string" where
  "Error ErrOpenState = ''circuit breaker is open''"
| "Error ErrTooManyRequests = ''too many requests''"
| "Error RedisNil = ''redis: nil''"
| "Error (Errorf m) = m"
| "Error (Wrapf m e) = m @ Error e"

text \<open>
  A message is an \<^verbatim>\<open>interface{}\<close>: the nil interface, a string, a byte slice, or any
  other Go value (of a type \<open>'v\<close> left open).

  The target of \<open>Deserialize\<close> is an \<^verbatim>\<open>interface{}\<close> too: the nil interface, a \<^verbatim>\<open>*string\<close>, a
  \<^verbatim>\<open>*[]byte\<close>, or a value of another type. The two type assertions of the source succeed
  for a pointer of the asserted type whether it points to a variable or is nil, so a
  \<^verbatim>\<open>*string\<close> and a \<^verbatim>\<open>*[]byte\<close> come in both kinds. Every other target is handed to
  \<^verbatim>\<open>json.Unmarshal\<close> as it is; \<open>'t\<close> is what that function sees of it.
\<close>

datatype 'v Message = NilMessage | Str string | Bytes bytes | Other 'v

datatype 't Target =
    NilTarget
  | StringPtr
  | NilStringPtr
  | BytesPtr
  | NilBytesPtr
  | OtherPtr 't

text \<open>
  A call either returns or panics; storing through a nil pointer is a run-time panic.
\<close>

datatype 'a outcome = Panic | Return 'a

text \<open>
  \<^verbatim>\<open>(*JSONSerializer).Serialize\<close>. The package \<^verbatim>\<open>encoding/json\<close> is not part of the
  repository: \<^verbatim>\<open>json.Marshal\<close> is the parameter \<open>jsonMarshal\<close>.
\<close>

definition Serialize :: "('v \<Rightarrow> error + bytes) \<Rightarrow> 'v Message \<Rightarrow> error + bytes" where
  "Serialize jsonMarshal message =
    (case message of
       NilMessage \<Rightarrow> Inl (Errorf ''message cannot be nil'')
     | Str str \<Rightarrow> Inr (bytes_of_string str)
     | Bytes bs \<Rightarrow> Inr bs
     | Other v \<Rightarrow>
         (case jsonMarshal v of
            Inl err \<Rightarrow> Inl (Wrapf ''failed to serialize message to JSON: '' err)
          | Inr data \<Rightarrow> Inr data))"

text \<open>
  \<^verbatim>\<open>(*JSONSerializer).Deserialize\<close>; \<^verbatim>\<open>json.Unmarshal\<close> is the parameter
  \<open>jsonUnmarshal\<close>, which receives the bytes and the target. The source returns an error
  and stores the decoded value through the target; the model returns the error or the
  value stored.
\<close>

definition Deserialize ::
  "(bytes \<Rightarrow> 't \<Rightarrow> error + 'v) \<Rightarrow> bytes \<Rightarrow> 't Target \<Rightarrow> (error + 'v Message) outcome" where
  "Deserialize jsonUnmarshal data target =
    (if length data = 0 then Return (Inl (Errorf ''data cannot be empty''))
     else case target of
       NilTarget \<Rightarrow> Return (Inl (Errorf ''target cannot be nil''))
     | StringPtr \<Rightarrow> Return (Inr (Str (string_of_bytes data)))
     | NilStringPtr \<Rightarrow> Panic
     | BytesPtr \<Rightarrow> Return (Inr (Bytes data))
     | NilBytesPtr \<Rightarrow> Panic
     | OtherPtr t \<Rightarrow>
         (case jsonUnmarshal data t of
            Inl err \<Rightarrow> Return (Inl (Wrapf ''failed to deserialize JSON to target: '' err))
          | Inr v \<Rightarrow> Return (Inr (Other v))))"

definition ContentType :: string where
  "ContentType = ''application/json''"


text \<open>
  A fragment of \<^verbatim>\<open>encoding/json\<close>, for evaluating the codec at concrete inputs: the
  booleans, which are encoded as \<^verbatim>\<open>true\<close> and \<^verbatim>\<open>false\<close>, and the float64 \<^verbatim>\<open>NaN\<close>,
  which \<^verbatim>\<open>json.Marshal\<close> refuses with an unsupported-value error.
\<close>

datatype GoValue = GoBool bool | GoNaN

datatype GoType = BoolType | Float64Type


fun goMarshal :: "GoValue \<Rightarrow> error + bytes" where
  "goMarshal (GoBool b) = Inr (bytes_of_string (if b then ''true'' else ''false''))"
| "goMarshal GoNaN = Inl (Errorf ''json: unsupported value: NaN'')"

fun goUnmarshal :: "bytes \<Rightarrow> GoType \<Rightarrow> error + GoValue" where
  "goUnmarshal data BoolType =
     (if data = bytes_of_string ''true'' then Inr (GoBool True)
      else if data = bytes_of_string ''false'' then Inr (GoBool False)
      else Inl (Errorf ''json: cannot unmarshal into Go value of type bool''))"
| "goUnmarshal data Float64Type =
     Inl (Errorf ''json: cannot unmarshal into Go value of type float64'')"

section \<open>The fault isolator\<close>

text \<open>
  Modelled from the spec: the three-state fault isolator of section 4.2 (closed, open,
  half-open; consecutive-failure counting; the open timeout; the half-open trial quota;
  the interval that resets the closed-state counters). The source delegates it to the
  package \<^verbatim>\<open>github.com/sony/gobreaker\<close>, which is not part of the repository; the
  definitions below keep that package's names and structure (\<^verbatim>\<open>beforeRequest\<close>,
  \<^verbatim>\<open>afterRequest\<close>, \<^verbatim>\<open>currentState\<close>, \<^verbatim>\<open>setState\<close>, \<^verbatim>\<open>toNewGeneration\<close>).
  The clock reading \<open>now\<close> is passed in by the caller.
\<close>

text \<open>
  \<^verbatim>\<open>time.Time\<close> as a count of nanoseconds; \<^verbatim>\<open>t.Add(d)\<close> is \<open>t + d\<close> and
  \<^verbatim>\<open>t.Before(u)\<close> is \<open>t < u\<close>. The zero time, which the breaker uses for "no expiry", is
  \<open>None\<close> in a \<open>Time option\<close>.
\<close>

type_synonym Time = int

datatype State = StateClosed | StateHalfOpen | StateOpen

fun State_String :: "State \<Rightarrow> string" where
  "State_String StateClosed = ''closed''"
| "State_String StateHalfOpen = ''half-open''"
| "State_String StateOpen = ''open''"

record Counts =
  Requests :: nat
  TotalSuccesses :: nat
  TotalFailures :: nat
  ConsecutiveSuccesses :: nat
  ConsecutiveFailures :: nat

record Settings =
  MaxRequests :: nat
  Interval :: Duration
  Timeout :: Duration
  ReadyToTrip :: "Counts \<Rightarrow> bool"

record CircuitBreaker =
  maxRequests :: nat
  interval :: Duration
  timeout :: Duration
  readyToTrip :: "Counts \<Rightarrow> bool"
  state :: State
  generation :: nat
  counts :: Counts
  expiry :: "Time option"

definition clearCounts :: Counts where
  "clearCounts = \<lparr>Requests = 0, TotalSuccesses = 0, TotalFailures = 0,
     ConsecutiveSuccesses = 0, ConsecutiveFailures = 0\<rparr>"

definition countOnRequest :: "Counts \<Rightarrow> Counts" where
  "countOnRequest c = c\<lparr>Requests := Requests c + 1\<rparr>"

definition countOnSuccess :: "Counts \<Rightarrow> Counts" where
  "countOnSuccess c = c\<lparr>TotalSuccesses := TotalSuccesses c + 1,
     ConsecutiveSuccesses := ConsecutiveSuccesses c + 1, ConsecutiveFailures := 0\<rparr>"

definition countOnFailure :: "Counts \<Rightarrow> Counts" where
  "countOnFailure c = c\<lparr>TotalFailures := TotalFailures c + 1,
     ConsecutiveFailures := ConsecutiveFailures c + 1, ConsecutiveSuccesses := 0\<rparr>"

text \<open>
  Modelled from the spec: a new counting period. The counters are cleared; in the closed
  state the period ends after the configured interval ("a configured interval also
  periodically resets long-running closed-state counters"), in the open state after the
  configured timeout.
\<close>

definition toNewGeneration :: "CircuitBreaker \<Rightarrow> Time \<Rightarrow> CircuitBreaker" where
  "toNewGeneration cb now =
    cb\<lparr>generation := generation cb + 1,
       counts := clearCounts,
       expiry :=
         (case state cb of
            StateClosed \<Rightarrow> if interval cb = 0 then None else Some (now + interval cb)
          | StateOpen \<Rightarrow> Some (now + timeout cb)
          | StateHalfOpen \<Rightarrow> None)\<rparr>"

definition setState :: "CircuitBreaker \<Rightarrow> State \<Rightarrow> Time \<Rightarrow> CircuitBreaker" where
  "setState cb st now =
    (if state cb = st then cb else toNewGeneration (cb\<lparr>state := st\<rparr>) now)"

text \<open>
  Modelled from the spec: the state at the time \<open>now\<close>. Open: "after the timeout
  elapses, transition to half-open"; closed: the counters are reset once the interval has
  elapsed.
\<close>

definition currentState :: "CircuitBreaker \<Rightarrow> Time \<Rightarrow> CircuitBreaker" where
  "currentState cb now =
    (case state cb of
       StateClosed \<Rightarrow>
         (case expiry cb of
            None \<Rightarrow> cb
          | Some e \<Rightarrow> if e < now then toNewGeneration cb now else cb)
     | StateOpen \<Rightarrow>
         (case expiry cb of
            None \<Rightarrow> setState cb StateHalfOpen now
          | Some e \<Rightarrow> if e < now then setState cb StateHalfOpen now else cb)
     | StateHalfOpen \<Rightarrow> cb)"

text \<open>
  Modelled from the spec: admission of a call. Open: "all calls fail immediately with
  CircuitOpen, without invoking the transport operation"; half-open: "up to a configured
  maximum number of trial calls are allowed through"; closed: "all calls pass through".
\<close>

definition beforeRequest :: "CircuitBreaker \<Rightarrow> Time \<Rightarrow> (error + nat) \<times> CircuitBreaker" where
  "beforeRequest cb now =
    (let cb1 = currentState cb now in
     if state cb1 = StateOpen then (Inl ErrOpenState, cb1)
     else if state cb1 = StateHalfOpen \<and> Requests (counts cb1) \<ge> maxRequests cb1
       then (Inl ErrTooManyRequests, cb1)
     else (Inr (generation cb1), cb1\<lparr>counts := countOnRequest (counts cb1)\<rparr>))"

text \<open>
  Modelled from the spec: the outcome of a call. Closed: "the isolator counts consecutive
  failures; when consecutive failures exceed a configured threshold, transition to
  open". Half-open: "if any trial fails, transition back to open (reset timeout); if the
  trial quota succeeds, transition to closed and reset the consecutive-failure counter".
  An outcome that arrives after the counting period of its call has ended is dropped.
\<close>

definition onSuccess :: "CircuitBreaker \<Rightarrow> State \<Rightarrow> Time \<Rightarrow> CircuitBreaker" where
  "onSuccess cb st now =
    (case st of
       StateClosed \<Rightarrow> cb\<lparr>counts := countOnSuccess (counts cb)\<rparr>
     | StateHalfOpen \<Rightarrow>
         (let cb1 = cb\<lparr>counts := countOnSuccess (counts cb)\<rparr> in
          if ConsecutiveSuccesses (counts cb1) \<ge> maxRequests cb1
          then setState cb1 StateClosed now else cb1)
     | StateOpen \<Rightarrow> cb)"

definition onFailure :: "CircuitBreaker \<Rightarrow> State \<Rightarrow> Time \<Rightarrow> CircuitBreaker" where
  "onFailure cb st now =
    (case st of
       StateClosed \<Rightarrow>
         (let cb1 = cb\<lparr>counts := countOnFailure (counts cb)\<rparr> in
          if readyToTrip cb1 (counts cb1) then setState cb1 StateOpen now else cb1)
     | StateHalfOpen \<Rightarrow> setState cb StateOpen now
     | StateOpen \<Rightarrow> cb)"

definition afterRequest :: "CircuitBreaker \<Rightarrow> nat \<Rightarrow> bool \<Rightarrow> Time \<Rightarrow> CircuitBreaker" where
  "afterRequest cb before success now =
    (let cb1 = currentState cb now in
     if generation cb1 \<noteq> before then cb1
     else if success then onSuccess cb1 (state cb1) now
     else onFailure cb1 (state cb1) now)"

text \<open>
  Modelled from the spec: the construction of the isolator from its configured settings
  (\<^verbatim>\<open>gobreaker.NewCircuitBreaker\<close>, not part of the repository). Where the spec is
  silent the package's documented defaults are used: zero max-requests means one trial
  call, a non-positive interval means the closed-state counters are never reset, a
  non-positive timeout means sixty seconds.
\<close>

definition NewCircuitBreaker :: "Settings \<Rightarrow> Time \<Rightarrow> CircuitBreaker" where
  "NewCircuitBreaker st now =
    toNewGeneration
      \<lparr>maxRequests = (if MaxRequests st = 0 then 1 else MaxRequests st),
       interval = (if Interval st \<le> 0 then 0 else Interval st),
       timeout = (if Timeout st \<le> 0 then 60 * Second else Timeout st),
       readyToTrip = ReadyToTrip st,
       state = StateClosed, generation = 0, counts = clearCounts, expiry = None\<rparr>
      now"

text \<open>
  The settings that \<^verbatim>\<open>NewSender\<close> passes (sender.go, lines 93 to 108): the trip policy
  is the closure \<^verbatim>\<open>counts.ConsecutiveFailures > 3\<close>.
\<close>

definition senderReadyToTrip :: "Counts \<Rightarrow> bool" where
  "senderReadyToTrip c \<longleftrightarrow> ConsecutiveFailures c > 3"

definition breakerSettings :: "Config \<Rightarrow> Settings" where
  "breakerSettings c =
    \<lparr>MaxRequests = BreakerMaxRequests c,
     Interval = BreakerInterval c,
     Timeout = BreakerTimeout c,
     ReadyToTrip = senderReadyToTrip\<rparr>"

section \<open>Data model (types.go)\<close>

text \<open>
  The envelope that is pushed onto the queue. The sender always builds it with empty
  headers and without metadata; both are kept as association lists.
\<close>

record MessageEnvelope =
  ID :: string
  Queue :: string
  Payload :: bytes
  Headers :: "(string \<times> string) list"
  Timestamp :: Time
  TTL :: Duration
  Retries :: int
  Metadata :: "(string \<times> string) list"

record MessageMetadata =
  md_Queue :: string
  md_Position :: int
  md_MessageID :: string
  md_Headers :: "(string \<times> string) list"
  md_Timestamp :: Time
  md_TTL :: Duration
  md_Size :: int

record HealthStatus =
  Status :: string
  LastSuccess :: Time
  LastError :: string
  ErrorCount :: "64 word"
  MessagesSent :: "64 word"
  Uptime :: Duration
  ConnectionState :: string
  CircuitBreaker :: string

text \<open>
  \<^verbatim>\<open>SenderOptions\<close>: for the two handlers only whether they are set matters to the
  sender; each call of a handler is recorded in the trace below. The \<^verbatim>\<open>Logger\<close> option
  is an \<^verbatim>\<open>interface{}\<close>: the nil interface, a \<^verbatim>\<open>*slog.Logger\<close> (which may itself be a
  nil pointer), or a value of another type.
\<close>

datatype LoggerOption = NoLogger | SlogLogger | NilSlogLogger | OtherLogger

record SenderOptions =
  ErrorHandler :: bool
  SuccessHandler :: bool
  Logger :: LoggerOption
  QueueNamer :: "(string \<Rightarrow> string) option"

section \<open>The world outside the sender\<close>

text \<open>
  Every interaction of the sender with its collaborators is an event of a trace: a wait
  at the rate limiter, a pipeline (push and expire) sent to the store, a length query, a
  call of the error handler or of the success handler.
\<close>

datatype Event =
    LimiterWait
  | PipelineExec string "bytes list" Duration
  | LLenCall string
  | ErrorHandlerCall error
  | SuccessHandlerCall MessageMetadata

text \<open>
  The store's lists and expirations, the clock (\<open>now_at w n\<close> is the result of the
  \<open>n\<close>-th call of \<^verbatim>\<open>time.Now()\<close>), the source of UUIDs (\<open>uuid_at w n\<close> is the result of
  the \<open>n\<close>-th call of \<^verbatim>\<open>uuid.New().String()\<close>) and the trace.
\<close>

record World =
  lists :: "string \<rightharpoonup> bytes list"
  ttls :: "string \<rightharpoonup> Duration"
  now_at :: "nat \<Rightarrow> Time"
  ticks :: nat
  uuid_at :: "nat \<Rightarrow> string"
  uuids :: nat
  trace :: "Event list"

record valkeySender = World +
  config :: Config
  options :: SenderOptions
  circuitBreaker :: CircuitBreaker
  startTime :: Time
  messagesSent :: "64 word"
  errorCount :: "64 word"
  lastSuccess :: Time
  lastError :: string
  isConnected :: bool

text \<open>
  What the collaborators answer during one call: the result of \<^verbatim>\<open>rateLimiter.Wait\<close>
  and the result of \<^verbatim>\<open>pipe.Exec\<close> (\<open>None\<close> is the nil error).
\<close>

record CallEnv =
  waitResult :: "error option"
  execResult :: "error option"

text \<open>\<^verbatim>\<open>json.Marshal\<close> on a message value and on an envelope, as parameters.\<close>

record 'v Json =
  Marshal :: "'v \<Rightarrow> error + bytes"
  MarshalEnvelope :: "MessageEnvelope \<Rightarrow> error + bytes"

definition timeNow :: "'a World_scheme \<Rightarrow> Time \<times> 'a World_scheme" where
  "timeNow w = (now_at w (ticks w), w\<lparr>ticks := ticks w + 1\<rparr>)"

definition uuidNew :: "'a World_scheme \<Rightarrow> string \<times> 'a World_scheme" where
  "uuidNew w = (uuid_at w (uuids w), w\<lparr>uuids := uuids w + 1\<rparr>)"

definition emit :: "Event \<Rightarrow> 'a World_scheme \<Rightarrow> 'a World_scheme" where
  "emit ev w = w\<lparr>trace := trace w @ [ev]\<rparr>"

text \<open>
  Modelled from the spec: the transport of section 6, "push value(s) onto list L" and
  "set expiration on L to duration D" as one unit, and "length of list L (treat missing
  key as length 0)". The store is not part of the repository. A pipeline that fails
  leaves the store as it was; \<^verbatim>\<open>LPUSH\<close> puts the values at the head one after the other.
\<close>

definition pipelineExec ::
  "CallEnv \<Rightarrow> string \<Rightarrow> bytes list \<Rightarrow> Duration \<Rightarrow> 'a World_scheme
     \<Rightarrow> error option \<times> 'a World_scheme" where
  "pipelineExec env key vals ttl w =
    (let w1 = emit (PipelineExec key vals ttl) w in
     case execResult env of
       Some err \<Rightarrow> (Some err, w1)
     | None \<Rightarrow>
         (None, w1\<lparr>lists := (lists w1)(key \<mapsto>
                       rev vals @ (case lists w1 key of None \<Rightarrow> [] | Some xs \<Rightarrow> xs)),
                    ttls := (ttls w1)(key \<mapsto> ttl)\<rparr>))"

definition storeLLen :: "(string \<rightharpoonup> bytes list) \<Rightarrow> string \<Rightarrow> int" where
  "storeLLen ls key = (case ls key of None \<Rightarrow> 0 | Some xs \<Rightarrow> int (length xs))"

section \<open>Division of counters in \<^verbatim>\<open>float64\<close>\<close>

text \<open>
  \<^verbatim>\<open>Health\<close> converts two \<^verbatim>\<open>int64\<close> counters to \<^verbatim>\<open>float64\<close> and divides them. A
  \<^verbatim>\<open>float64\<close> has a significand of 53 bits, and conversion, division and the constants of
  the source round to the nearest such number, ties to the even significand.
  \<open>roundHalfEven\<close> rounds a real to an integer in that way.
\<close>

definition roundHalfEven :: "real \<Rightarrow> int" where
  "roundHalfEven y =
    (let f = \<lfloor>y\<rfloor>; r = y - of_int f
     in if r < 1 / 2 then f else if 1 / 2 < r then f + 1 else if even f then f else f + 1)"

text \<open>
  \<open>binade x\<close> is the exponent \<open>e\<close> of a positive \<open>x\<close>, with \<open>2 ^ e \<le> x < 2 ^ (e + 1)\<close>. It
  is searched from \<open>0\<close>, at most 1100 steps up or down, which covers every exponent of a
  \<^verbatim>\<open>float64\<close>.
\<close>

definition pow2 :: "int \<Rightarrow> real" where
  "pow2 k = (if 0 \<le> k then 2 ^ nat k else 1 / 2 ^ nat (- k))"

fun findBinade :: "nat \<Rightarrow> real \<Rightarrow> int \<Rightarrow> int" where
  "findBinade 0 x e = e"
| "findBinade (Suc n) x e =
    (if x < pow2 e then findBinade n x (e - 1)
     else if pow2 (e + 1) \<le> x then findBinade n x (e + 1)
     else e)"

definition binade :: "real \<Rightarrow> int" where
  "binade x = findBinade 1100 x 0"

text \<open>
  \<open>roundFloat64 x\<close> rounds \<open>x\<close> to 53 significant bits: in the binade \<open>e\<close> of \<open>\<bar>x\<bar>\<close> the
  neighbouring numbers are the multiples of \<open>2 ^ (e - 52)\<close>. Overflow and the subnormal
  numbers are left out: a converted counter is zero or of magnitude between \<open>1\<close> and
  \<open>2 ^ 63\<close>, and the quotient of two of them is zero or of magnitude between \<open>2 ^ - 63\<close> and
  \<open>2 ^ 63\<close>, far inside the range of the normal \<^verbatim>\<open>float64\<close> numbers.
\<close>

definition roundFloat64 :: "real \<Rightarrow> real" where
  "roundFloat64 x =
    (if x = 0 then 0
     else (let e = binade \<bar>x\<bar>; u = pow2 (e - 52)
           in sgn x * (u * of_int (roundHalfEven (\<bar>x\<bar> / u)))))"

text \<open>
  A division by zero does not panic in \<^verbatim>\<open>float64\<close>: it gives \<^verbatim>\<open>+Inf\<close> or \<^verbatim>\<open>-Inf\<close> with the
  sign of the numerator, and \<^verbatim>\<open>NaN\<close> for a zero numerator. \<^verbatim>\<open>+Inf\<close> is greater than every
  number; \<^verbatim>\<open>NaN\<close> and \<^verbatim>\<open>-Inf\<close> are greater than none.
\<close>

datatype float64 = Finite real | PosInf | NegInf | NaN

definition float64_div :: "real \<Rightarrow> real \<Rightarrow> float64" where
  "float64_div a b =
    (if b = 0 then (if 0 < a then PosInf else if a < 0 then NegInf else NaN)
     else Finite (roundFloat64 (a / b)))"

fun float64_gt :: "float64 \<Rightarrow> real \<Rightarrow> bool" where
  "float64_gt (Finite x) c \<longleftrightarrow> c < x"
| "float64_gt PosInf c \<longleftrightarrow> True"
| "float64_gt NegInf c \<longleftrightarrow> False"
| "float64_gt NaN c \<longleftrightarrow> False"

text \<open>The conversion \<^verbatim>\<open>float64(n)\<close> of an \<^verbatim>\<open>int64\<close>.\<close>

definition float64_of_int64 :: "64 word \<Rightarrow> real" where
  "float64_of_int64 w = roundFloat64 (of_int (sint w))"



section \<open>The sender (sender.go)\<close>

definition setConnectionState :: "bool \<Rightarrow> valkeySender \<Rightarrow> valkeySender" where
  "setConnectionState c s = s\<lparr>isConnected := c\<rparr>"

definition getConnectionState :: "valkeySender \<Rightarrow> bool" where
  "getConnectionState s = isConnected s"

definition getQueueKey :: "valkeySender \<Rightarrow> string \<Rightarrow> string" where
  "getQueueKey s queue =
    (case QueueNamer (options s) of
       Some namer \<Rightarrow> namer queue
     | None \<Rightarrow> ''queue:'' @ queue)"

text \<open>The decimal digits of a number, for the \<^verbatim>\<open>%d\<close> of \<^verbatim>\<open>fmt.Errorf\<close>.\<close>

fun showNat :: "nat \<Rightarrow> string" where
  "showNat n =
    (if n < 10 then [char_of (48 + n)]
     else showNat (n div 10) @ [char_of (48 + n mod 10)])"

text \<open>
  \<^verbatim>\<open>SerializeMessageEnvelope\<close>: the default codec on an envelope, which is neither a
  string nor a byte slice and so goes to \<^verbatim>\<open>json.Marshal\<close>.
\<close>

definition SerializeMessageEnvelope :: "'v Json \<Rightarrow> MessageEnvelope \<Rightarrow> error + bytes" where
  "SerializeMessageEnvelope ext envelope =
    (case MarshalEnvelope ext envelope of
       Inl err \<Rightarrow> Inl (Wrapf ''failed to serialize message to JSON: '' err)
     | Inr data \<Rightarrow> Inr data)"

text \<open>
  Modelled from the spec: the contract \<^verbatim>\<open>execute(operation)\<close> of section 4.2
  (\<^verbatim>\<open>circuitBreaker.Execute\<close> of the package), around a request that runs on the
  sender. The breaker reads the clock before and after the request; a rejected call does
  not run the request; a request that returns no error counts as a success.
\<close>

definition Execute ::
  "(valkeySender \<Rightarrow> error option \<times> valkeySender) \<Rightarrow> valkeySender
     \<Rightarrow> error option \<times> valkeySender" where
  "Execute req s =
    (let (now, s1) = timeNow s;
         (r, cb1) = beforeRequest (circuitBreaker s1) now;
         s2 = s1\<lparr>circuitBreaker := cb1\<rparr>
     in case r of
          Inl err \<Rightarrow> (Some err, s2)
        | Inr before \<Rightarrow>
            (let (err, s3) = req s2;
                 (now2, s4) = timeNow s3
             in (err, s4\<lparr>circuitBreaker :=
                          afterRequest (circuitBreaker s4) before (err = None) now2\<rparr>)))"

definition sendMessageInternal ::
  "'v Json \<Rightarrow> CallEnv \<Rightarrow> string \<Rightarrow> 'v Message \<Rightarrow> Duration \<Rightarrow> valkeySender
     \<Rightarrow> error option \<times> valkeySender" where
  "sendMessageInternal ext env queue message ttl s =
    (let (uuid, s1) = uuidNew s;
         (now, s2) = timeNow s1;
         envelope = \<lparr>ID = uuid, Queue = queue, Payload = [], Headers = [],
                      Timestamp = now, TTL = ttl, Retries = 0, Metadata = []\<rparr>
     in case Serialize (Marshal ext) message of
          Inl err \<Rightarrow> (Some (Wrapf ''failed to serialize message: '' err), s2)
        | Inr payload \<Rightarrow>
            (case SerializeMessageEnvelope ext (envelope\<lparr>Payload := payload\<rparr>) of
               Inl err \<Rightarrow> (Some (Wrapf ''failed to serialize envelope: '' err), s2)
             | Inr envelopeData \<Rightarrow>
                 (let listKey = getQueueKey s2 queue;
                      (err, s3) = pipelineExec env listKey [envelopeData] ttl s2
                  in case err of
                       Some e \<Rightarrow>
                         (Some (Wrapf (''failed to send message to queue '' @ queue @ '': '') e),
                          setConnectionState False s3)
                     | None \<Rightarrow> (None, setConnectionState True s3))))"

definition SendMessageWithTTL ::
  "'v Json \<Rightarrow> CallEnv \<Rightarrow> string \<Rightarrow> 'v Message \<Rightarrow> Duration \<Rightarrow> valkeySender
     \<Rightarrow> error option \<times> valkeySender" where
  "SendMessageWithTTL ext env queue message ttl s =
    (let (start, s1) = timeNow s;
         s2 = emit LimiterWait s1
     in case waitResult env of
          Some err \<Rightarrow> (Some (Wrapf ''rate limiter error: '' err), s2)
        | None \<Rightarrow>
            (let (err, s3) = Execute (sendMessageInternal ext env queue message ttl) s2
             in case err of
                  Some e \<Rightarrow>
                    (let s4 = s3\<lparr>errorCount := errorCount s3 + 1, lastError := Error e\<rparr>
                     in (Some e,
                         if ErrorHandler (options s4) then emit (ErrorHandlerCall e) s4 else s4))
                | None \<Rightarrow>
                    (let s4 = s3\<lparr>messagesSent := messagesSent s3 + 1\<rparr>;
                         (now, s5) = timeNow s4;
                         s6 = s5\<lparr>lastSuccess := now\<rparr>
                     in if SuccessHandler (options s6)
                        then (let (uuid, s7) = uuidNew s6;
                                  metadata = \<lparr>md_Queue = queue, md_Position = 0,
                                     md_MessageID = uuid, md_Headers = [],
                                     md_Timestamp = start, md_TTL = ttl, md_Size = 0\<rparr>
                              in (None, emit (SuccessHandlerCall metadata) s7))
                        else (None, s6))))"

definition SendMessage ::
  "'v Json \<Rightarrow> CallEnv \<Rightarrow> string \<Rightarrow> 'v Message \<Rightarrow> valkeySender
     \<Rightarrow> error option \<times> valkeySender" where
  "SendMessage ext env queue message s =
    SendMessageWithTTL ext env queue message (MessageTTL (config s)) s"

text \<open>
  The loop of \<^verbatim>\<open>sendBatchInternal\<close> that prepares the envelopes, from index \<open>i\<close> on.
  The source keeps only the serialized envelope; the model returns each envelope beside
  its serialized form. The loop stops at the first message that cannot be serialized.
\<close>

fun prepareEnvelopes ::
  "'v Json \<Rightarrow> string \<Rightarrow> nat \<Rightarrow> 'v Message list \<Rightarrow> valkeySender
     \<Rightarrow> (error + (MessageEnvelope \<times> bytes) list) \<times> valkeySender" where
  "prepareEnvelopes ext queue i [] s = (Inr [], s)"
| "prepareEnvelopes ext queue i (message # rest) s =
    (let (uuid, s1) = uuidNew s;
         (now, s2) = timeNow s1;
         envelope = \<lparr>ID = uuid, Queue = queue, Payload = [], Headers = [],
                      Timestamp = now, TTL = MessageTTL (config s2), Retries = 0,
                      Metadata = []\<rparr>
     in case Serialize (Marshal ext) message of
          Inl err \<Rightarrow>
            (Inl (Wrapf (''failed to serialize message '' @ showNat i @ '': '') err), s2)
        | Inr payload \<Rightarrow>
            (case SerializeMessageEnvelope ext (envelope\<lparr>Payload := payload\<rparr>) of
               Inl err \<Rightarrow>
                 (Inl (Wrapf (''failed to serialize envelope '' @ showNat i @ '': '') err), s2)
             | Inr envelopeData \<Rightarrow>
                 (case prepareEnvelopes ext queue (i + 1) rest s2 of
                    (Inl err, s3) \<Rightarrow> (Inl err, s3)
                  | (Inr envelopes, s3) \<Rightarrow>
                      (Inr ((envelope\<lparr>Payload := payload\<rparr>, envelopeData) # envelopes), s3))))"

definition sendBatchInternal ::
  "'v Json \<Rightarrow> CallEnv \<Rightarrow> string \<Rightarrow> 'v Message list \<Rightarrow> valkeySender
     \<Rightarrow> error option \<times> valkeySender" where
  "sendBatchInternal ext env queue messages s =
    (let listKey = getQueueKey s queue
     in case prepareEnvelopes ext queue 0 messages s of
          (Inl err, s1) \<Rightarrow> (Some err, s1)
        | (Inr envelopes, s1) \<Rightarrow>
            (let (err, s2) =
                   pipelineExec env listKey (map snd envelopes) (MessageTTL (config s1)) s1
             in case err of
                  Some e \<Rightarrow>
                    (Some (Wrapf (''failed to send batch to queue '' @ queue @ '': '') e),
                     setConnectionState False s2)
                | None \<Rightarrow> (None, setConnectionState True s2)))"

text \<open>
  The loop of \<^verbatim>\<open>SendBatch\<close> that calls the success handler once for each message,
  from index \<open>i\<close> on.
\<close>

fun notifyBatch ::
  "string \<Rightarrow> Time \<Rightarrow> nat \<Rightarrow> 'v Message list \<Rightarrow> valkeySender \<Rightarrow> valkeySender" where
  "notifyBatch queue start i [] s = s"
| "notifyBatch queue start i (message # rest) s =
    (let (uuid, s1) = uuidNew s;
         metadata = \<lparr>md_Queue = queue, md_Position = int i, md_MessageID = uuid,
                      md_Headers = [], md_Timestamp = start,
                      md_TTL = MessageTTL (config s1), md_Size = 0\<rparr>
     in notifyBatch queue start (i + 1) rest (emit (SuccessHandlerCall metadata) s1))"

definition SendBatch ::
  "'v Json \<Rightarrow> CallEnv \<Rightarrow> string \<Rightarrow> 'v Message list \<Rightarrow> valkeySender
     \<Rightarrow> error option \<times> valkeySender" where
  "SendBatch ext env queue messages s =
    (if length messages = 0 then (Some (Errorf ''messages slice cannot be empty''), s)
     else
       (let (start, s1) = timeNow s;
            s2 = emit LimiterWait s1
        in case waitResult env of
             Some err \<Rightarrow> (Some (Wrapf ''rate limiter error: '' err), s2)
           | None \<Rightarrow>
               (let (err, s3) = Execute (sendBatchInternal ext env queue messages) s2
                in case err of
                     Some e \<Rightarrow>
                       (let s4 = s3\<lparr>errorCount := errorCount s3 + 1, lastError := Error e\<rparr>
                        in (Some e,
                            if ErrorHandler (options s4)
                            then emit (ErrorHandlerCall e) s4 else s4))
                   | None \<Rightarrow>
                       (let s4 = s3\<lparr>messagesSent :=
                                       messagesSent s3 + of_nat (length messages)\<rparr>;
                            (now, s5) = timeNow s4;
                            s6 = s5\<lparr>lastSuccess := now\<rparr>
                        in if SuccessHandler (options s6)
                           then (None, notifyBatch queue start 0 messages s6)
                           else (None, s6)))))"

text \<open>
  \<^verbatim>\<open>GetQueueSize\<close>. \<open>llenErr\<close> is the error of the \<^verbatim>\<open>LLEN\<close> command as the client
  reports it (\<open>None\<close> when the store has answered with a length).
\<close>

definition GetQueueSize ::
  "error option \<Rightarrow> string \<Rightarrow> valkeySender \<Rightarrow> (int \<times> error option) \<times> valkeySender" where
  "GetQueueSize llenErr queue s =
    (let listKey = getQueueKey s queue;
         s1 = emit (LLenCall listKey) s
     in case llenErr of
          Some err \<Rightarrow>
            if err = RedisNil then ((0, None), s1)
            else ((0, Some (Wrapf (''failed to get queue size for '' @ queue @ '': '') err)), s1)
        | None \<Rightarrow> ((storeLLen (lists s1) listKey, None), s1))"

text \<open>
  The status of \<^verbatim>\<open>Health\<close>. The counters are \<^verbatim>\<open>int64\<close>; the source converts the error
  count and the messages-sent count plus one (an \<^verbatim>\<open>int64\<close> addition, which wraps) to
  \<^verbatim>\<open>float64\<close>, divides in \<^verbatim>\<open>float64\<close>, and compares the quotient with the \<^verbatim>\<open>float64\<close>
  constants \<^verbatim>\<open>0.5\<close> and \<^verbatim>\<open>0.1\<close>; the first case of the \<^verbatim>\<open>switch\<close> that holds gives the
  status.
\<close>

definition errorRate :: "64 word \<Rightarrow> 64 word \<Rightarrow> float64" where
  "errorRate ec ms = float64_div (float64_of_int64 ec) (float64_of_int64 (ms + 1))"

definition healthStatus :: "64 word \<Rightarrow> 64 word \<Rightarrow> string" where
  "healthStatus ec ms =
    (let r = errorRate ec ms
     in if float64_gt r (roundFloat64 (1 / 2)) then ''unhealthy''
        else if float64_gt r (roundFloat64 (1 / 10)) then ''degraded''
        else ''healthy'')"

text \<open>
  \<^verbatim>\<open>Health\<close>. \<^verbatim>\<open>time.Since\<close> and \<^verbatim>\<open>circuitBreaker.State()\<close> each read the clock, and
  \<^verbatim>\<open>State()\<close> lets the breaker move to the state that is current at that time.
\<close>

definition Health :: "valkeySender \<Rightarrow> HealthStatus \<times> valkeySender" where
  "Health s =
    (let connectionState = (if getConnectionState s then ''connected'' else ''disconnected'');
         status = healthStatus (errorCount s) (messagesSent s);
         (now, s1) = timeNow s;
         (now2, s2) = timeNow s1;
         cb = currentState (circuitBreaker s2) now2
     in (\<lparr>Status = status, LastSuccess = lastSuccess s, LastError = lastError s,
          ErrorCount = errorCount s, MessagesSent = messagesSent s,
          Uptime = now - startTime s, ConnectionState = connectionState,
          CircuitBreaker = State_String (state cb)\<rparr>,
         s2\<lparr>circuitBreaker := cb\<rparr>))"

text \<open>
  \<^verbatim>\<open>NewLogger\<close> (logger.go) fails only when a log file is asked for and cannot be opened;
  \<open>openErr\<close> is the result of \<^verbatim>\<open>os.OpenFile\<close>. The logger itself carries no state of the
  model.
\<close>

definition NewLogger :: "string \<Rightarrow> error option \<Rightarrow> error option" where
  "NewLogger logFilePath openErr = (if logFilePath \<noteq> [] then openErr else None)"

text \<open>
  \<^verbatim>\<open>NewSender\<close>. \<open>openErr\<close> is the result of opening a log file, \<open>keyPairErr\<close> the result
  of loading the TLS key pair and \<open>ping\<close> the result of the \<^verbatim>\<open>PING\<close> that tests the
  connection. A logger is created when the option holds none, which is also the case of
  a nil \<^verbatim>\<open>*slog.Logger\<close>. The \<^verbatim>\<open>Serializer\<close> option is left out (the default codec is
  used); the rate limiter and the client handle carry no state of the model.
\<close>

definition NewSender ::
  "Config option \<Rightarrow> SenderOptions option \<Rightarrow> error option \<Rightarrow> error option \<Rightarrow> error + string
     \<Rightarrow> World \<Rightarrow> error + valkeySender" where
  "NewSender cfg opts openErr keyPairErr ping w =
    (case cfg of
       None \<Rightarrow> Inl (Errorf ''config cannot be nil'')
     | Some c \<Rightarrow>
        (let os = (case opts of
                     None \<Rightarrow> \<lparr>ErrorHandler = False, SuccessHandler = False,
                                Logger = NoLogger, QueueNamer = None\<rparr>
                   | Some given \<Rightarrow> given);
             loggerErr = (if Logger os = SlogLogger then None
                          else NewLogger [] openErr);
             (start, w1) = timeNow w;
             (now, w2) = timeNow w1;
             s = \<lparr>lists = lists w2, ttls = ttls w2, now_at = now_at w2, ticks = ticks w2,
                  uuid_at = uuid_at w2, uuids = uuids w2, trace = trace w2,
                  config = c, options = os,
                  circuitBreaker = NewCircuitBreaker (breakerSettings c) now,
                  startTime = start, messagesSent = 0, errorCount = 0,
                  lastSuccess = 0, lastError = [], isConnected = False\<rparr>;
             tlsErr = (if TLSEnabled c \<and> TLSCertFile c \<noteq> [] \<and> TLSKeyFile c \<noteq> []
                       then keyPairErr else None)
         in if Logger os = OtherLogger
            then Inl (Errorf ''logger must be of type *slog.Logger'')
            else case loggerErr of
              Some err \<Rightarrow> Inl (Wrapf ''failed to create logger: '' err)
            | None \<Rightarrow>
              (case tlsErr of
                 Some err \<Rightarrow>
                   Inl (Wrapf ''failed to initialize Redis client: ''
                         (Wrapf ''failed to load TLS certificate: '' err))
               | None \<Rightarrow>
                 (case ping of
                    Inl err \<Rightarrow>
                      Inl (Wrapf ''failed to connect to Valkey: ''
                            (Wrapf ''failed to ping Valkey: '' err))
                  | Inr pong \<Rightarrow>
                      if pong \<noteq> ''PONG''
                      then Inl (Wrapf ''failed to connect to Valkey: ''
                                 (Errorf (''unexpected ping response: '' @ pong)))
                      else
                        (let (now3, s1) = timeNow (setConnectionState True s)
                         in Inr (s1\<lparr>lastSuccess := now3\<rparr>))))))"

section \<open>A concrete sender\<close>

text \<open>
  A world with an empty store, a clock that advances by one millisecond between two
  readings, and a source of pairwise different identifiers; the options set both
  handlers; the JSON parameters are the fragment above and a stand-in for the encoding
  of an envelope that keeps the id and the payload.
\<close>

definition demoWorld :: World where
  "demoWorld =
    \<lparr>lists = Map.empty, ttls = Map.empty,
     now_at = (\<lambda>n. int n * Millisecond), ticks = 0,
     uuid_at = (\<lambda>n. replicate (n + 1) CHR ''u''), uuids = 0, trace = []\<rparr>"

definition demoOptions :: SenderOptions where
  "demoOptions =
    \<lparr>ErrorHandler = True, SuccessHandler = True, Logger = NoLogger, QueueNamer = None\<rparr>"

definition demoJson :: "GoValue Json" where
  "demoJson =
    \<lparr>Marshal = goMarshal,
     MarshalEnvelope = (\<lambda>e. Inr (bytes_of_string (ID e) @ Payload e))\<rparr>"

text \<open>
  The sender that \<open>NewSender\<close> returns for the default configuration in that world,
  with a store that answers the ping.
\<close>

definition demoSender :: valkeySender where
  "demoSender =
    \<lparr>lists = Map.empty, ttls = Map.empty,
     now_at = (\<lambda>n. int n * Millisecond), ticks = 3,
     uuid_at = (\<lambda>n. replicate (n + 1) CHR ''u''), uuids = 0, trace = [],
     config = defaultConfig, options = demoOptions,
     circuitBreaker =
       \<lparr>maxRequests = 5, interval = 120 * Second, timeout = 60 * Second,
        readyToTrip = senderReadyToTrip, state = StateClosed, generation = 1,
        counts = clearCounts, expiry = Some (Millisecond + 120 * Second)\<rparr>,
     startTime = 0, messagesSent = 0, errorCount = 0,
     lastSuccess = 2 * Millisecond, lastError = [], isConnected = True\<rparr>"

definition okEnv :: CallEnv where
  "okEnv = \<lparr>waitResult = None, execResult = None\<rparr>"

definition downEnv :: CallEnv where
  "downEnv = \<lparr>waitResult = None, execResult = Some (Errorf ''connection refused'')\<rparr>"

section \<open>Sequences of calls and observations on the trace\<close>

text \<open>
  A caller that uses the sender sequentially: each call comes with the answers of the
  collaborators during that call.
\<close>

datatype 'v Call = SendCall string "'v Message" Duration | BatchCall string "'v Message list"

fun runCall ::
  "'v Json \<Rightarrow> CallEnv \<Rightarrow> 'v Call \<Rightarrow> valkeySender \<Rightarrow> error option \<times> valkeySender" where
  "runCall ext env (SendCall queue message ttl) s = SendMessageWithTTL ext env queue message ttl s"
| "runCall ext env (BatchCall queue messages) s = SendBatch ext env queue messages s"

fun runCalls :: "'v Json \<Rightarrow> (CallEnv \<times> 'v Call) list \<Rightarrow> valkeySender \<Rightarrow> valkeySender" where
  "runCalls ext [] s = s"
| "runCalls ext ((env, c) # cs) s = runCalls ext cs (snd (runCall ext env c s))"

text \<open>
  A call that gets as far as the breaker: the rate limiter admits it and it is not an
  empty batch.
\<close>

fun reachesBreaker :: "CallEnv \<Rightarrow> 'v Call \<Rightarrow> bool" where
  "reachesBreaker env (SendCall queue message ttl) \<longleftrightarrow> waitResult env = None"
| "reachesBreaker env (BatchCall queue messages) \<longleftrightarrow> waitResult env = None \<and> messages \<noteq> []"

text \<open>A call that reaches the breaker while the transport is failing.\<close>

definition transportFails :: "CallEnv \<times> 'v Call \<Rightarrow> bool" where
  "transportFails ec \<longleftrightarrow> reachesBreaker (fst ec) (snd ec) \<and> execResult (fst ec) \<noteq> None"

fun isErrorHandlerCall :: "Event \<Rightarrow> bool" where
  "isErrorHandlerCall (ErrorHandlerCall e) = True"
| "isErrorHandlerCall ev = False"

fun isPipelineExec :: "Event \<Rightarrow> bool" where
  "isPipelineExec (PipelineExec key vals ttl) = True"
| "isPipelineExec ev = False"

text \<open>The number of calls of the error handler recorded in a trace.\<close>

definition errorCalls :: "Event list \<Rightarrow> nat" where
  "errorCalls tr = length (filter isErrorHandlerCall tr)"

text \<open>
  A sender whose clock jumps by fifty seconds between one call and the next (every call
  below reads the clock four times), built by \<open>NewSender\<close> like the one above.
\<close>

definition spacedWorld :: World where
  "spacedWorld =
    \<lparr>lists = Map.empty, ttls = Map.empty,
     now_at = (\<lambda>n. int ((n + 1) div 4) * (50 * Second)), ticks = 0,
     uuid_at = (\<lambda>n. replicate (n + 1) CHR ''u''), uuids = 0, trace = []\<rparr>"

definition spacedSender :: valkeySender where
  "spacedSender =
    \<lparr>lists = Map.empty, ttls = Map.empty,
     now_at = (\<lambda>n. int ((n + 1) div 4) * (50 * Second)), ticks = 3,
     uuid_at = (\<lambda>n. replicate (n + 1) CHR ''u''), uuids = 0, trace = [],
     config = defaultConfig, options = demoOptions,
     circuitBreaker =
       \<lparr>maxRequests = 5, interval = 120 * Second, timeout = 60 * Second,
        readyToTrip = senderReadyToTrip, state = StateClosed, generation = 1,
        counts = clearCounts, expiry = Some (120 * Second)\<rparr>,
     startTime = 0, messagesSent = 0, errorCount = 0,
     lastSuccess = 0, lastError = [], isConnected = True\<rparr>"

text \<open>A send that reaches the breaker while the transport refuses the connection.\<close>

definition failingSend :: "CallEnv \<times> GoValue Call" where
  "failingSend = (downEnv, SendCall ''q'' (Str ''hello'') Second)"

text \<open>The results of the calls of a run, in order.\<close>

fun runResults ::
  "'v Json \<Rightarrow> (CallEnv \<times> 'v Call) list \<Rightarrow> valkeySender \<Rightarrow> error option list" where
  "runResults ext [] s = []"
| "runResults ext ((env, c) # cs) s =
     fst (runCall ext env c s) # runResults ext cs (snd (runCall ext env c s))"

text \<open>A send of a nil message: the transport is up and the codec refuses the message.\<close>

definition nilSend :: "CallEnv \<times> GoValue Call" where
  "nilSend = (okEnv, SendCall ''q'' NilMessage Second)"

text \<open>
  The sender above, left idle after its construction: the clock has gone past the two
  minutes of the breaker's interval when the sender is first used.
\<close>

definition lateWorld :: World where
  "lateWorld =
    demoWorld\<lparr>now_at :=
      (\<lambda>n. if n < 3 then int n * Millisecond else 200 * Second + int n * Millisecond)\<rparr>"

definition lateSender :: valkeySender where
  "lateSender =
    demoSender\<lparr>now_at :=
      (\<lambda>n. if n < 3 then int n * Millisecond else 200 * Second + int n * Millisecond)\<rparr>"

section \<open>The concrete sender is a constructed one\<close>

lemma NewSender_demoSender:
  "NewSender (Some defaultConfig) (Some demoOptions) None None (Inr ''PONG'') demoWorld
     = Inr demoSender"
  by (simp add: NewSender_def NewLogger_def demoOptions_def demoWorld_def demoSender_def
      timeNow_def
      setConnectionState_def NewCircuitBreaker_def breakerSettings_def
      toNewGeneration_def defaultConfig_def Second_def Millisecond_def)

lemma NewSender_spacedSender:
  "NewSender (Some defaultConfig) (Some demoOptions) None None (Inr ''PONG'') spacedWorld
     = Inr spacedSender"
  by (simp add: NewSender_def NewLogger_def demoOptions_def spacedWorld_def spacedSender_def
      timeNow_def
      setConnectionState_def NewCircuitBreaker_def breakerSettings_def
      toNewGeneration_def defaultConfig_def Second_def Millisecond_def)

lemma NewSender_logger_errors:
  "NewSender (Some c) (Some (os\<lparr>Logger := OtherLogger\<rparr>)) openErr keyPairErr ping w
     = Inl (Errorf ''logger must be of type *slog.Logger'')"
  "NewLogger [] openErr = None"
  by (simp_all add: NewSender_def NewLogger_def)

lemma NewSender_lateSender:
  "NewSender (Some defaultConfig) (Some demoOptions) None None (Inr ''PONG'') lateWorld
     = Inr lateSender"
  by (simp add: NewSender_def NewLogger_def demoOptions_def lateWorld_def lateSender_def
      demoWorld_def demoSender_def timeNow_def
      setConnectionState_def NewCircuitBreaker_def breakerSettings_def
      toNewGeneration_def defaultConfig_def Second_def Millisecond_def)

section \<open>Empty batches\<close>

text \<open>
  C2. \<open>SendBatch\<close> on an empty slice returns the empty-batch error and leaves the sender
  and the world as they were: the trace gains no event (no wait at the rate limiter, no
  pipeline), the breaker, the clock and the store are untouched, whatever the
  collaborators would have answered.
\<close>

theorem SendBatch_empty:
  "SendBatch ext env queue [] s = (Some (Errorf ''messages slice cannot be empty''), s)"
  by (simp add: SendBatch_def)

section \<open>Queue size\<close>

text \<open>
  C8. When the resolved key of the queue has no list in the store, and the length query
  is answered (by a length, or by the client's nil reply), \<open>GetQueueSize\<close> returns the
  size 0 and no error.
\<close>

theorem GetQueueSize_never_written:
  assumes "lists s (getQueueKey s queue) = None"
    and "llenErr = None \<or> llenErr = Some RedisNil"
  shows "fst (GetQueueSize llenErr queue s) = (0, None)"
  using assms
  by (auto simp: GetQueueSize_def Let_def storeLLen_def emit_def getQueueKey_def
      split: option.splits)

theorem GetQueueSize_never_written_witness:
  "lists demoSender (getQueueKey demoSender ''never-written'') = None
   \<and> fst (GetQueueSize None ''never-written'' demoSender) = (0, None)"
  using GetQueueSize_never_written [of demoSender "''never-written''" None]
  by (simp add: demoSender_def getQueueKey_def)

section \<open>Health status\<close>

subsection \<open>Rounding to \<^verbatim>\<open>float64\<close>\<close>

text \<open>The exponent search finds the binade, and \<open>pow2\<close> is the power of two.\<close>

lemma pow2_powr: "pow2 k = 2 powr of_int k"
proof (cases "0 \<le> k")
  case True
  then show ?thesis by (simp add: pow2_def powr_real_of_int)
next
  case False
  then have "(2::real) powr of_int k = inverse (2 ^ nat (- k))"
    by (simp add: powr_real_of_int)
  with False show ?thesis by (simp add: pow2_def inverse_eq_divide)
qed

lemma findBinade_correct:
  "0 < x \<Longrightarrow> \<bar>\<lfloor>log 2 x\<rfloor> - e\<bar> \<le> int n \<Longrightarrow> findBinade n x e = \<lfloor>log 2 x\<rfloor>"
proof (induction n arbitrary: e)
  case 0
  then show ?case by simp
next
  case (Suc n)
  define t where "t = \<lfloor>log 2 x\<rfloor>"
  have b: "2 powr of_int t \<le> x" "x < 2 powr of_int (t + 1)"
    using Suc.prems(1) floor_log_eq_powr_iff [of x 2 t] by (simp_all add: t_def)
  show ?case
  proof (cases "x < pow2 e")
    case True
    from b(1) True have "(2::real) powr of_int t < 2 powr of_int e"
      unfolding pow2_powr by (rule le_less_trans)
    then have "t < e" by simp
    with Suc.prems(2) have "\<bar>\<lfloor>log 2 x\<rfloor> - (e - 1)\<bar> \<le> int n" by (simp add: t_def)
    from Suc.IH [OF Suc.prems(1) this] True show ?thesis by simp
  next
    case False
    show ?thesis
    proof (cases "pow2 (e + 1) \<le> x")
      case True
      from True b(2) have "(2::real) powr of_int (e + 1) < 2 powr of_int (t + 1)"
        unfolding pow2_powr by (rule le_less_trans)
      then have "e < t" by simp
      with Suc.prems(2) have "\<bar>\<lfloor>log 2 x\<rfloor> - (e + 1)\<bar> \<le> int n" by (simp add: t_def)
      from Suc.IH [OF Suc.prems(1) this] True False show ?thesis by simp
    next
      case nb: False
      from False nb have "2 powr of_int e \<le> x" "x < 2 powr of_int (e + 1)"
        by (simp_all add: pow2_powr not_less not_le)
      then have "\<lfloor>log 2 x\<rfloor> = e"
        using Suc.prems(1) by (simp add: floor_log_eq_powr_iff)
      with False nb show ?thesis by simp
    qed
  qed
qed

lemma binade_eq:
  assumes "2 powr of_int e \<le> x" and "x < 2 powr of_int (e + 1)" and "\<bar>e\<bar> \<le> 1100"
  shows "binade x = e"
proof -
  have "(0::real) < 2 powr of_int e" by simp
  with assms(1) have pos: "0 < x" by linarith
  have t: "\<lfloor>log 2 x\<rfloor> = e"
    using assms pos by (simp add: floor_log_eq_powr_iff)
  have "\<bar>\<lfloor>log 2 x\<rfloor> - 0\<bar> \<le> int 1100" using assms(3) t by simp
  from findBinade_correct [OF pos this] t show ?thesis by (simp add: binade_def)
qed

lemma roundHalfEven_ge: "of_int k \<le> y \<Longrightarrow> k \<le> roundHalfEven y"
proof -
  assume "of_int k \<le> y"
  then have "k \<le> \<lfloor>y\<rfloor>" by (simp add: le_floor_iff)
  then show ?thesis by (auto simp: roundHalfEven_def Let_def)
qed

lemma roundHalfEven_le: "y \<le> of_int k \<Longrightarrow> roundHalfEven y \<le> k"
proof -
  assume a: "y \<le> of_int k"
  have f: "\<lfloor>y\<rfloor> \<le> k" using a by (simp add: floor_le_iff)
  show ?thesis
  proof (cases "\<lfloor>y\<rfloor> = k")
    case True
    then have "y = of_int k" using a by (metis of_int_floor_le order_antisym)
    then show ?thesis by (simp add: roundHalfEven_def)
  next
    case False
    with f have "\<lfloor>y\<rfloor> + 1 \<le> k" by simp
    then show ?thesis using f by (auto simp: roundHalfEven_def Let_def)
  qed
qed

lemma roundHalfEven_of_int [simp]: "roundHalfEven (of_int k) = k"
  by (simp add: roundHalfEven_def)

text \<open>Rounding inside the binade of \<open>x\<close>.\<close>

lemma roundFloat64_binade:
  assumes "2 powr of_int e \<le> (x::real)" and "x < 2 powr of_int (e + 1)"
    and "- 1100 \<le> e" and "e \<le> 1100"
  shows "roundFloat64 x = 2 powr of_int (e - 52) * of_int (roundHalfEven (x / 2 powr of_int (e - 52)))"
proof -
  have "(0::real) < 2 powr of_int e" by simp
  with assms(1) have pos: "0 < x" by linarith
  have "binade x = e"
    using assms by (intro binade_eq) simp_all
  then show ?thesis using pos by (simp add: roundFloat64_def Let_def pow2_powr)
qed

lemma scaled_bounds:
  assumes "2 powr of_int e \<le> (x::real)" and "x < 2 powr of_int (e + 1)"
  shows "2 ^ 52 \<le> x / 2 powr of_int (e - 52)" and "x / 2 powr of_int (e - 52) < 2 ^ 53"
proof -
  have u: "(2::real) powr of_int (e - 52) = 2 powr of_int e / 2 ^ 52"
    by (simp add: powr_diff)
  have p: "(0::real) < 2 powr of_int e" by simp
  show "2 ^ 52 \<le> x / 2 powr of_int (e - 52)"
    unfolding u using assms(1) p by (simp add: field_simps)
  have "(2::real) powr of_int (e + 1) = 2 * 2 powr of_int e"
    by (simp add: powr_add)
  with assms(2) show "x / 2 powr of_int (e - 52) < 2 ^ 53"
    unfolding u using p by (simp add: field_simps)
qed

lemma roundFloat64_lower:
  assumes "2 powr of_int k \<le> x" and "x < 2 powr of_int m" and "- 1100 \<le> k" and "m \<le> 1100"
  shows "2 powr of_int k \<le> roundFloat64 x"
proof -
  have "(0::real) < 2 powr of_int k" by simp
  with assms(1) have pos: "0 < x" by linarith
  define e where "e = \<lfloor>log 2 x\<rfloor>"
  have b: "2 powr of_int e \<le> x" "x < 2 powr of_int (e + 1)"
    using pos floor_log_eq_powr_iff [of x 2 e] by (simp_all add: e_def)
  have ke: "k \<le> e"
  proof -
    have "(2::real) powr of_int k < 2 powr of_int (e + 1)"
      using assms(1) b(2) by (rule le_less_trans)
    then show ?thesis by simp
  qed
  have em: "e < m"
  proof -
    have "(2::real) powr of_int e < 2 powr of_int m"
      using b(1) assms(2) by (rule le_less_trans)
    then show ?thesis by simp
  qed
  have r: "- 1100 \<le> e" "e \<le> 1100" using ke em assms(3,4) by simp_all
  have "(2::real) ^ 52 = of_int (2 ^ 52)" by simp
  with scaled_bounds(1) [OF b] have "(2::int) ^ 52 \<le> roundHalfEven (x / 2 powr of_int (e - 52))"
    by (intro roundHalfEven_ge) simp
  then have "(2::real) ^ 52 \<le> of_int (roundHalfEven (x / 2 powr of_int (e - 52)))"
    by (metis of_int_le_iff of_int_numeral of_int_power)
  then have "2 powr of_int (e - 52) * 2 ^ 52 \<le> roundFloat64 x"
    unfolding roundFloat64_binade [OF b r] by (simp add: mult_left_mono)
  moreover have "(2::real) powr of_int (e - 52) * 2 ^ 52 = 2 powr of_int e"
    by (simp add: powr_diff)
  moreover have "(2::real) powr of_int k \<le> 2 powr of_int e" using ke by simp
  ultimately show ?thesis by linarith
qed

lemma roundFloat64_upper:
  assumes "2 powr of_int j \<le> x" and "x < 2 powr of_int k" and "- 1100 \<le> j" and "k \<le> 1100"
  shows "roundFloat64 x \<le> 2 powr of_int k"
proof -
  have "(0::real) < 2 powr of_int j" by simp
  with assms(1) have pos: "0 < x" by linarith
  define e where "e = \<lfloor>log 2 x\<rfloor>"
  have b: "2 powr of_int e \<le> x" "x < 2 powr of_int (e + 1)"
    using pos floor_log_eq_powr_iff [of x 2 e] by (simp_all add: e_def)
  have ke: "e + 1 \<le> k"
  proof -
    have "(2::real) powr of_int e < 2 powr of_int k"
      using b(1) assms(2) by (rule le_less_trans)
    then have "e < k" by simp
    then show ?thesis by simp
  qed
  have je: "j \<le> e"
  proof -
    have "(2::real) powr of_int j < 2 powr of_int (e + 1)"
      using assms(1) b(2) by (rule le_less_trans)
    then show ?thesis by simp
  qed
  have r: "- 1100 \<le> e" "e \<le> 1100" using ke je assms(3,4) by simp_all
  have "x / 2 powr of_int (e - 52) \<le> of_int (2 ^ 53)"
    using scaled_bounds(2) [OF b] by simp
  then have "roundHalfEven (x / 2 powr of_int (e - 52)) \<le> 2 ^ 53"
    by (rule roundHalfEven_le)
  then have "of_int (roundHalfEven (x / 2 powr of_int (e - 52))) \<le> (2::real) ^ 53"
    by (metis of_int_le_iff of_int_numeral of_int_power)
  then have "roundFloat64 x \<le> 2 powr of_int (e - 52) * 2 ^ 53"
    unfolding roundFloat64_binade [OF b r] by (simp add: mult_left_mono)
  moreover have "(2::real) powr of_int (e - 52) * 2 ^ 53 = 2 powr of_int (e + 1)"
    by (simp add: powr_diff powr_add)
  moreover have "(2::real) powr of_int (e + 1) \<le> 2 powr of_int k" using ke by simp
  ultimately show ?thesis by linarith
qed

lemma powr_neg_int: "0 \<le> k \<Longrightarrow> (2::real) powr of_int (- k) = inverse (2 ^ nat k)"
proof -
  assume k: "0 \<le> k"
  have "(2::real) powr of_int (- k) = inverse (2 powr of_int k)"
    by (simp add: powr_minus)
  also have "(2::real) powr of_int k = 2 ^ nat k"
    using k by (simp add: powr_real_of_int)
  finally show ?thesis .
qed

lemma powr_int_less: "(2::real) powr of_int a < 2 powr of_int b \<Longrightarrow> a < b"
  by simp

lemma roundFloat64_of_int:
  assumes "0 < n" and "n < 2 ^ 53"
  shows "roundFloat64 (of_int n) = of_int n"
proof -
  define x :: real where "x = of_int n"
  have pos: "0 < x" using assms(1) by (simp add: x_def)
  define e where "e = \<lfloor>log 2 x\<rfloor>"
  have b: "2 powr of_int e \<le> x" "x < 2 powr of_int (e + 1)"
    using pos floor_log_eq_powr_iff [of x 2 e] by (simp_all add: e_def)
  have xlt: "x < 9007199254740992"
    using assms(2) by (simp add: x_def)
  have p53: "(2::real) powr of_int 53 = 9007199254740992"
    by simp
  have "x < 2 powr of_int 53"
    using xlt by (simp only: p53)
  with b(1) have "(2::real) powr of_int e < 2 powr of_int 53" by (rule le_less_trans)
  then have "e < 53" by (rule powr_int_less)
  then have e52: "e \<le> 52" by simp
  have "(2::real) powr of_int 0 \<le> x" using assms(1) by (simp add: x_def)
  then have "(2::real) powr of_int 0 < 2 powr of_int (e + 1)" using b(2) by (rule le_less_trans)
  then have "0 < e + 1" by (rule powr_int_less)
  then have r: "- 1100 \<le> e" "e \<le> 1100" using e52 by simp_all
  have u: "(2::real) powr of_int (e - 52) = inverse (2 ^ nat (52 - e))"
    using powr_neg_int [of "52 - e"] e52 by simp
  have "x / 2 powr of_int (e - 52) = of_int (n * 2 ^ nat (52 - e))"
    unfolding u by (simp add: x_def field_simps)
  then have "roundHalfEven (x / 2 powr of_int (e - 52)) = n * 2 ^ nat (52 - e)"
    by (simp only: roundHalfEven_of_int)
  then have "roundFloat64 x = 2 powr of_int (e - 52) * of_int (n * 2 ^ nat (52 - e))"
    unfolding roundFloat64_binade [OF b r] by simp
  also have "\<dots> = x"
    unfolding u by (simp add: x_def field_simps)
  finally show ?thesis by (simp add: x_def)
qed

lemma roundFloat64_half: "roundFloat64 (1 / 2) = 1 / 2"
proof -
  have b: "2 powr of_int (- 1) \<le> (1 / 2 :: real)" "(1 / 2 :: real) < 2 powr of_int (- 1 + 1)"
    by (simp_all add: powr_minus)
  have r: "- 1100 \<le> (- 1 :: int)" "(- 1 :: int) \<le> 1100" by simp_all
  have u: "(2::real) powr of_int (- 1 - 52) = inverse (2 ^ 53)"
    using powr_neg_int [of 53] by simp
  have "(1 / 2) / (2::real) powr of_int (- 1 - 52) = of_int (2 ^ 52)"
    unfolding u by simp
  then have "roundHalfEven ((1 / 2) / 2 powr of_int (- 1 - 52)) = 2 ^ 52"
    by (simp only: roundHalfEven_of_int)
  then show ?thesis
    unfolding roundFloat64_binade [OF b r] u by simp
qed

lemma roundFloat64_tenth: "roundFloat64 (1 / 10) = 7205759403792794 / 2 ^ 56"
proof -
  have b: "2 powr of_int (- 4) \<le> (1 / 10 :: real)" "(1 / 10 :: real) < 2 powr of_int (- 4 + 1)"
    using powr_neg_int [of 4] powr_neg_int [of 3] by simp_all
  have r: "- 1100 \<le> (- 4 :: int)" "(- 4 :: int) \<le> 1100" by simp_all
  have u: "(2::real) powr of_int (- 4 - 52) = inverse (2 ^ 56)"
    using powr_neg_int [of 56] by simp
  have "roundHalfEven ((1 / 10) / 2 powr of_int (- 4 - 52)) = 7205759403792794"
    unfolding u by (simp add: roundHalfEven_def Let_def)
  then show ?thesis
    unfolding roundFloat64_binade [OF b r] u by simp
qed

lemma roundFloat64_zero [simp]: "roundFloat64 0 = 0"
  by (simp add: roundFloat64_def)

text \<open>The quotient of two counters lies well inside the range of the exponent search.\<close>

lemma quotient_range:
  assumes "1 \<le> ra" and "ra < 2 ^ 53" and "1 \<le> rb" and "rb \<le> 2 ^ 52"
  shows "2 powr of_int (- 52) \<le> ra / (rb::real)" and "ra / rb < 2 powr of_int 53"
proof -
  have p: "(2::real) powr of_int (- 52) = inverse (2 ^ 52)"
    using powr_neg_int [of 52] by simp
  have q: "(2::real) powr of_int 53 = 2 ^ 53"
    by (simp add: powr_real_of_int)
  have "inverse (2 ^ 52) \<le> ra / rb"
  proof -
    have "inverse (2 ^ 52) \<le> inverse rb" using assms(3,4) by (simp add: field_simps)
    also have "\<dots> \<le> ra / rb" using assms(1,3) by (simp add: field_simps)
    finally show ?thesis .
  qed
  then show "2 powr of_int (- 52) \<le> ra / rb" by (simp only: p)
  have "ra / rb \<le> ra" using assms(1,3) by (simp add: field_simps mult_le_cancel_left1)
  also have "\<dots> < 2 ^ 53" by (rule assms(2))
  finally show "ra / rb < 2 powr of_int 53" by (simp only: q)
qed

lemma half_threshold:
  assumes a: "0 \<le> a" "a < 2 ^ 53" and b: "0 < b" "b \<le> 2 ^ 52"
  shows "1 / 2 < roundFloat64 (of_int a / of_int b) \<longleftrightarrow> b < 2 * a"
proof -
  define ra rb :: real where "ra = of_int a" and "rb = of_int b"
  define x where "x = ra / rb"
  have r: "0 \<le> ra" "0 < rb" "rb \<le> 4503599627370496" "1 \<le> rb" "ra < 2 ^ 53" "rb \<le> 2 ^ 52"
    using a b by (simp_all add: ra_def rb_def)
  have rng: "- 1100 \<le> (- 52 :: int)" "(53 :: int) \<le> 1100" "- 1100 \<le> (0 :: int)"
    "(- 1 :: int) \<le> 1100" "- 1100 \<le> (- 1 :: int)"
    by simp_all
  have xr: "2 powr of_int (- 52) \<le> x" "x < 2 powr of_int 53" if "ra \<noteq> 0"
  proof -
    from that a have "1 \<le> a" by (simp add: ra_def)
    then have "1 \<le> ra" by (simp add: ra_def)
    from quotient_range [OF this r(5) r(4) r(6)]
    show "2 powr of_int (- 52) \<le> x" "x < 2 powr of_int 53" by (simp_all only: x_def)
  qed
  show ?thesis
  proof (cases "b < 2 * a")
    case True
    then have "b + 1 \<le> 2 * a" by simp
    then have "of_int (b + 1) \<le> (of_int (2 * a) :: real)" by (simp only: of_int_le_iff)
    then have gt: "rb + 1 \<le> 2 * ra" by (simp add: ra_def rb_def)
    then have nz: "ra \<noteq> 0" using r by auto
    have "1 / 2 < roundFloat64 x"
    proof (cases "rb \<le> ra")
      case True
      then have "2 powr of_int 0 \<le> x" using r by (simp add: x_def)
      from roundFloat64_lower [OF this xr(2) [OF nz] rng(3) rng(2)] show ?thesis by simp
    next
      case False
      have bd: "2 powr of_int (- 1) \<le> x" "x < 2 powr of_int (- 1 + 1)"
        using r gt False by (simp_all add: x_def powr_minus field_simps)
      have u: "(2::real) powr of_int (- 1 - 52) = inverse (2 ^ 53)"
        using powr_neg_int [of 53] by simp
      have "of_int (2 ^ 52 + 1) \<le> x / 2 powr of_int (- 1 - 52)"
        unfolding u using r gt by (simp add: x_def field_simps)
      then have "2 ^ 52 + 1 \<le> roundHalfEven (x / 2 powr of_int (- 1 - 52))"
        by (rule roundHalfEven_ge)
      then have "of_int (2 ^ 52 + 1) \<le> (of_int (roundHalfEven (x / 2 powr of_int (- 1 - 52))) :: real)"
        by (simp only: of_int_le_iff)
      then have "inverse (2 ^ 53) * of_int (2 ^ 52 + 1) \<le> roundFloat64 x"
        unfolding roundFloat64_binade [OF bd rng(5) rng(4)] u by (simp add: mult_left_mono)
      then show ?thesis by simp
    qed
    with True show ?thesis by (simp add: x_def ra_def rb_def)
  next
    case False
    then have "2 * a \<le> b" by simp
    then have "of_int (2 * a) \<le> (of_int b :: real)" by (simp only: of_int_le_iff)
    then have le: "2 * ra \<le> rb" by (simp add: ra_def rb_def)
    have "roundFloat64 x \<le> 1 / 2"
    proof (cases "ra = 0")
      case True
      then show ?thesis by (simp add: x_def)
    next
      case nz: False
      show ?thesis
      proof (cases "2 * ra = rb")
        case True
        then have "x = 1 / 2" using r by (simp add: x_def field_simps)
        then have "roundFloat64 x = 1 / 2" by (simp only: roundFloat64_half)
        then show ?thesis by simp
      next
        case False
        have "x < 2 powr of_int (- 1)"
          using r nz le False by (simp_all add: x_def powr_minus field_simps)
        from roundFloat64_upper [OF xr(1) [OF nz] this rng(1) rng(4)]
        show ?thesis by (simp add: powr_minus)
      qed
    qed
    with False show ?thesis by (simp add: x_def ra_def rb_def)
  qed
qed

lemma tenth_threshold:
  assumes a: "0 \<le> a" "a < 2 ^ 53" and b: "0 < b" "b \<le> 2 ^ 52"
  shows "roundFloat64 (1 / 10) < roundFloat64 (of_int a / of_int b) \<longleftrightarrow> b < 10 * a"
proof -
  define ra rb :: real where "ra = of_int a" and "rb = of_int b"
  define x where "x = ra / rb"
  have r: "0 \<le> ra" "0 < rb" "rb \<le> 4503599627370496" "1 \<le> rb" "ra < 2 ^ 53" "rb \<le> 2 ^ 52"
    using a b by (simp_all add: ra_def rb_def)
  have rng: "- 1100 \<le> (- 52 :: int)" "(53 :: int) \<le> 1100" "- 1100 \<le> (- 3 :: int)"
    "(- 4 :: int) \<le> 1100" "- 1100 \<le> (- 4 :: int)"
    by simp_all
  have xr: "2 powr of_int (- 52) \<le> x" "x < 2 powr of_int 53" if "ra \<noteq> 0"
  proof -
    from that a have "1 \<le> a" by (simp add: ra_def)
    then have "1 \<le> ra" by (simp add: ra_def)
    from quotient_range [OF this r(5) r(4) r(6)]
    show "2 powr of_int (- 52) \<le> x" "x < 2 powr of_int 53" by (simp_all only: x_def)
  qed
  have u: "(2::real) powr of_int (- 4 - 52) = inverse (2 ^ 56)"
    using powr_neg_int [of 56] by simp
  have p4: "(2::real) powr of_int (- 4) = 1 / 16" and p3: "(2::real) powr of_int (- 3) = 1 / 8"
    using powr_neg_int [of 4] powr_neg_int [of 3] by simp_all
  have m41: "- 4 + 1 = (- 3 :: int)" by simp
  show ?thesis
  proof (cases "b < 10 * a")
    case True
    then have "b + 1 \<le> 10 * a" by simp
    then have "of_int (b + 1) \<le> (of_int (10 * a) :: real)" by (simp only: of_int_le_iff)
    then have gt: "rb + 1 \<le> 10 * ra" by (simp add: ra_def rb_def)
    then have nz: "ra \<noteq> 0" using r by auto
    have "roundFloat64 (1 / 10) < roundFloat64 x"
    proof (cases "rb \<le> 8 * ra")
      case True
      then have "1 / 8 \<le> x" using r by (simp add: x_def field_simps)
      then have "2 powr of_int (- 3) \<le> x" by (simp only: p3)
      from roundFloat64_lower [OF this xr(2) [OF nz] rng(3) rng(2)]
      have "1 / 8 \<le> roundFloat64 x" by (simp only: p3)
      then show ?thesis by (simp add: roundFloat64_tenth)
    next
      case False
      have "1 / 16 \<le> x" "x < 1 / 8"
        using r gt False by (simp_all add: x_def field_simps)
      then have bd: "2 powr of_int (- 4) \<le> x" "x < 2 powr of_int (- 4 + 1)"
        by (simp_all only: p4 p3 m41)
      have "of_int 7205759403792795 \<le> x / 2 powr of_int (- 4 - 52)"
        unfolding u using r gt by (simp add: x_def field_simps)
      then have "7205759403792795 \<le> roundHalfEven (x / 2 powr of_int (- 4 - 52))"
        by (rule roundHalfEven_ge)
      then have "of_int 7205759403792795
          \<le> (of_int (roundHalfEven (x / 2 powr of_int (- 4 - 52))) :: real)"
        by (simp only: of_int_le_iff)
      then have "inverse (2 ^ 56) * of_int 7205759403792795 \<le> roundFloat64 x"
        unfolding roundFloat64_binade [OF bd rng(5) rng(4)] u by (simp add: mult_left_mono)
      then show ?thesis by (simp add: roundFloat64_tenth)
    qed
    with True show ?thesis by (simp add: x_def ra_def rb_def)
  next
    case False
    then have "10 * a \<le> b" by simp
    then have "of_int (10 * a) \<le> (of_int b :: real)" by (simp only: of_int_le_iff)
    then have le: "10 * ra \<le> rb" by (simp add: ra_def rb_def)
    have "roundFloat64 x \<le> roundFloat64 (1 / 10)"
    proof (cases "ra = 0")
      case True
      then show ?thesis by (simp add: x_def roundFloat64_tenth)
    next
      case nz: False
      show ?thesis
      proof (cases "16 * ra < rb")
        case True
        have "x < 1 / 16"
          using r nz True by (simp_all add: x_def field_simps)
        then have "x < 2 powr of_int (- 4)" by (simp_all only: p4)
        from roundFloat64_upper [OF xr(1) [OF nz] this rng(1) rng(4)]
        have "roundFloat64 x \<le> 1 / 16" by (simp only: p4)
        then show ?thesis by (simp add: roundFloat64_tenth)
      next
        case False
        have "1 / 16 \<le> x" "x < 1 / 8"
          using r le False by (simp_all add: x_def field_simps)
        then have bd: "2 powr of_int (- 4) \<le> x" "x < 2 powr of_int (- 4 + 1)"
          by (simp_all only: p4 p3 m41)
        have "x / 2 powr of_int (- 4 - 52) \<le> of_int 7205759403792794"
          unfolding u using r le by (simp add: x_def field_simps)
        then have "roundHalfEven (x / 2 powr of_int (- 4 - 52)) \<le> 7205759403792794"
          by (rule roundHalfEven_le)
        then have "(of_int (roundHalfEven (x / 2 powr of_int (- 4 - 52))) :: real)
            \<le> of_int 7205759403792794"
          by (simp only: of_int_le_iff)
        then have "roundFloat64 x \<le> inverse (2 ^ 56) * of_int 7205759403792794"
          unfolding roundFloat64_binade [OF bd rng(5) rng(4)] u by (simp add: mult_left_mono)
        then show ?thesis by (simp add: roundFloat64_tenth)
      qed
    qed
    with False show ?thesis by (simp add: x_def ra_def rb_def)
  qed
qed

subsection \<open>The status computed from the counters\<close>

lemma sint_succ_nonzero: "0 \<le> sint (ms :: 64 word) \<Longrightarrow> sint (ms + 1) \<noteq> 0"
proof
  assume a: "0 \<le> sint ms" and b: "sint (ms + 1) = 0"
  from b have "ms + 1 = 0" by (simp only: signed_eq_0_iff)
  then have "ms = -1" by (simp add: eq_neg_iff_add_eq_0)
  then have "sint ms = -1" by simp
  with a show False by simp
qed

lemma sint_succ: "sint (ms :: 64 word) < 2 ^ 63 - 1 \<Longrightarrow> sint (ms + 1) = sint ms + 1"
proof -
  assume a: "sint ms < 2 ^ 63 - 1"
  have b: "- (2 ^ 63) \<le> sint ms" using sint_ge [of ms] by simp
  have "sint (ms + 1) = signed_take_bit 63 (sint ms + 1)"
    by (simp add: sint_word_add)
  also have "\<dots> = sint ms + 1"
    using a b by (intro signed_take_bit_int_eq_self) auto
  finally show ?thesis .
qed

lemma roundFloat64_minus: "roundFloat64 (- x) = - roundFloat64 x"
  by (simp add: roundFloat64_def Let_def sgn_minus)

text \<open>The conversion of a counter that is not zero is not zero.\<close>

lemma roundFloat64_int_nonzero:
  assumes "n \<noteq> 0" and "\<bar>n\<bar> \<le> 2 ^ 63"
  shows "roundFloat64 (of_int n) \<noteq> 0"
proof -
  have pos: "0 < roundFloat64 (of_int m)" if m: "0 < m" "m \<le> 2 ^ 63" for m :: int
  proof -
    have q: "(2::real) powr of_int 64 = 2 ^ 64"
      by (simp add: powr_real_of_int)
    have "real_of_int m < 2 ^ 64" using m(2) by (simp add: of_int_less_iff [symmetric] del: of_int_less_iff)
    then have hi: "real_of_int m < 2 powr of_int 64" by (simp only: q)
    have lo: "2 powr of_int 0 \<le> real_of_int m" using m(1) by simp
    have "2 powr of_int 0 \<le> roundFloat64 (of_int m)"
      by (rule roundFloat64_lower [OF lo hi]) simp_all
    then show ?thesis by simp
  qed
  show ?thesis
  proof (cases "0 < n")
    case True
    with pos [of n] assms(2) show ?thesis by simp
  next
    case False
    with assms have "0 < - n" "- n \<le> 2 ^ 63" by simp_all
    from pos [OF this] show ?thesis by (simp add: roundFloat64_minus)
  qed
qed

lemma roundFloat64_of_nonneg_int:
  "0 \<le> n \<Longrightarrow> n < 2 ^ 53 \<Longrightarrow> roundFloat64 (of_int n) = of_int n"
  using roundFloat64_of_int [of n] by (cases "n = 0") simp_all

lemma errorRate_small:
  assumes "0 \<le> sint ec" "sint ec < 2 ^ 53" "0 \<le> sint ms" "sint ms < 2 ^ 53 - 1"
  shows "errorRate ec ms = Finite (roundFloat64 (of_int (sint ec) / (of_int (sint ms) + 1)))"
proof -
  have s: "sint (ms + 1) = sint ms + 1" using assms(4) by (intro sint_succ) simp
  have a: "float64_of_int64 ec = of_int (sint ec)"
    unfolding float64_of_int64_def using assms(1,2) by (rule roundFloat64_of_nonneg_int)
  have "0 < sint ms + 1" "sint ms + 1 < 2 ^ 53" using assms(3,4) by simp_all
  then have "roundFloat64 (of_int (sint ms + 1)) = of_int (sint ms + 1)"
    by (rule roundFloat64_of_int)
  then have b: "float64_of_int64 (ms + 1) = of_int (sint ms) + 1"
    unfolding float64_of_int64_def s by (simp del: of_int_sint)
  have "of_int (sint ms) + 1 \<noteq> (0::real)" using assms(3) by linarith
  then show ?thesis unfolding errorRate_def float64_div_def a b by (simp del: of_int_sint)
qed

lemma healthStatus_exact:
  assumes "0 \<le> sint ec" "sint ec < 2 ^ 53" "0 \<le> sint ms" "sint ms < 2 ^ 52"
  shows "healthStatus ec ms =
    (if 1 / 2 < real_of_int (sint ec) / (real_of_int (sint ms) + 1) then ''unhealthy''
     else if 1 / 10 < real_of_int (sint ec) / (real_of_int (sint ms) + 1) then ''degraded''
     else ''healthy'')"
proof -
  define a b where "a = sint ec" and "b = sint ms + 1"
  have ab: "0 \<le> a" "a < 2 ^ 53" "0 < b" "b \<le> 2 ^ 52"
    using assms by (simp_all add: a_def b_def)
  have rb: "real_of_int (sint ms) + 1 = of_int b" by (simp add: b_def)
  have e: "errorRate ec ms = Finite (roundFloat64 (of_int a / of_int b))"
    using errorRate_small [of ec ms] assms by (simp add: a_def b_def)
  have rpos: "(0::real) < of_int b" using ab by simp
  have h: "1 / 2 < real_of_int a / of_int b \<longleftrightarrow> b < 2 * a"
  proof -
    have "1 / 2 < real_of_int a / of_int b \<longleftrightarrow> real_of_int b < of_int (2 * a)"
      using rpos by (simp add: field_simps)
    then show ?thesis by (simp only: of_int_less_iff)
  qed
  have t: "1 / 10 < real_of_int a / of_int b \<longleftrightarrow> b < 10 * a"
  proof -
    have "1 / 10 < real_of_int a / of_int b \<longleftrightarrow> real_of_int b < of_int (10 * a)"
      using rpos by (simp add: field_simps)
    then show ?thesis by (simp only: of_int_less_iff)
  qed
  have "healthStatus ec ms =
      (if b < 2 * a then ''unhealthy'' else if b < 10 * a then ''degraded'' else ''healthy'')"
    unfolding healthStatus_def e Let_def float64_gt.simps roundFloat64_half
      half_threshold [OF ab] tenth_threshold [OF ab] ..
  then show ?thesis unfolding rb h t a_def [symmetric] .
qed

text \<open>
  Beyond those bounds rounding can decide: with 900000000000000 errors and
  8999999999999998 messages sent the exact quotient is above 1/10, the \<^verbatim>\<open>float64\<close>
  quotient is the \<^verbatim>\<open>float64\<close> constant 0.1 itself, and the status is healthy.
\<close>

lemma healthStatus_float64_rounding:
  "healthStatus 900000000000000 8999999999999998 = ''healthy''"
  "(1 / 10 :: real) < 900000000000000 / (8999999999999998 + 1)"
  by code_simp+

lemma healthStatus_examples:
  "healthStatus 0 0 = ''healthy''" "healthStatus 6 10 = ''unhealthy''"
  "healthStatus 2 10 = ''degraded''" "healthStatus 0 10 = ''healthy''"
  using healthStatus_exact [of 0 0] healthStatus_exact [of 6 10]
    healthStatus_exact [of 2 10] healthStatus_exact [of 0 10]
  by simp_all

lemma divisor_nonzero: "0 \<le> sint ms \<Longrightarrow> float64_of_int64 (ms + 1) \<noteq> 0"
proof -
  assume a: "0 \<le> sint ms"
  have "- (2 ^ 63) \<le> sint (ms + 1)" "sint (ms + 1) < 2 ^ 63"
    using sint_ge [of "ms + 1"] sint_lt [of "ms + 1"] by simp_all
  then have "\<bar>sint (ms + 1)\<bar> \<le> 2 ^ 63" by simp
  with sint_succ_nonzero [OF a] show ?thesis
    unfolding float64_of_int64_def by (rule roundFloat64_int_nonzero)
qed

text \<open>
  C4. The status that \<open>Health\<close> reports is computed from the two counters at the time of
  the call. With a messages-sent counter that is not negative the divisor is not zero.
  The error rate is the \<^verbatim>\<open>float64\<close> quotient of the error count and the messages sent
  plus one, and the status is unhealthy when that rate is above 0.5, degraded when it is
  above the \<^verbatim>\<open>float64\<close> constant 0.1, and healthy otherwise. With an error count below
  \<open>2 ^ 53\<close> and fewer than \<open>2 ^ 52\<close> messages sent, rounding does not change the outcome:
  the status is unhealthy exactly when the exact quotient is above 1/2, degraded exactly
  when it is above 1/10 and not above 1/2, and healthy otherwise. The four examples of
  the specification evaluate as stated.
\<close>

theorem Health_status_derivation:
  "(0 \<le> sint ms \<longrightarrow> sint (ms + 1) \<noteq> 0 \<and> float64_of_int64 (ms + 1) \<noteq> 0)
   \<and> (healthStatus ec ms = ''unhealthy'' \<longleftrightarrow> float64_gt (errorRate ec ms) (1 / 2))
   \<and> (healthStatus ec ms = ''degraded'' \<longleftrightarrow>
        \<not> float64_gt (errorRate ec ms) (1 / 2)
        \<and> float64_gt (errorRate ec ms) (7205759403792794 / 2 ^ 56))
   \<and> (healthStatus ec ms = ''healthy'' \<longleftrightarrow>
        \<not> float64_gt (errorRate ec ms) (1 / 2)
        \<and> \<not> float64_gt (errorRate ec ms) (7205759403792794 / 2 ^ 56))
   \<and> (0 \<le> sint ec \<and> sint ec < 2 ^ 53 \<and> 0 \<le> sint ms \<and> sint ms < 2 ^ 52 \<longrightarrow>
        errorRate ec ms
          = Finite (roundFloat64 (real_of_int (sint ec) / (real_of_int (sint ms) + 1)))
        \<and> healthStatus ec ms =
          (if 1 / 2 < real_of_int (sint ec) / (real_of_int (sint ms) + 1) then ''unhealthy''
           else if 1 / 10 < real_of_int (sint ec) / (real_of_int (sint ms) + 1)
           then ''degraded'' else ''healthy''))
   \<and> Status (fst (Health s)) = healthStatus (errorCount s) (messagesSent s)
   \<and> healthStatus 0 0 = ''healthy''
   \<and> healthStatus 6 10 = ''unhealthy''
   \<and> healthStatus 2 10 = ''degraded''
   \<and> healthStatus 0 10 = ''healthy''"
proof -
  have a: "0 \<le> sint ms \<longrightarrow> sint (ms + 1) \<noteq> 0 \<and> float64_of_int64 (ms + 1) \<noteq> 0"
    using sint_succ_nonzero [of ms] divisor_nonzero [of ms] by blast
  have b: "healthStatus ec ms = ''unhealthy'' \<longleftrightarrow> float64_gt (errorRate ec ms) (1 / 2)"
    "healthStatus ec ms = ''degraded'' \<longleftrightarrow>
        \<not> float64_gt (errorRate ec ms) (1 / 2)
        \<and> float64_gt (errorRate ec ms) (7205759403792794 / 2 ^ 56)"
    "healthStatus ec ms = ''healthy'' \<longleftrightarrow>
        \<not> float64_gt (errorRate ec ms) (1 / 2)
        \<and> \<not> float64_gt (errorRate ec ms) (7205759403792794 / 2 ^ 56)"
    unfolding healthStatus_def Let_def roundFloat64_half roundFloat64_tenth by simp_all
  have c: "0 \<le> sint ec \<and> sint ec < 2 ^ 53 \<and> 0 \<le> sint ms \<and> sint ms < 2 ^ 52 \<longrightarrow>
        errorRate ec ms
          = Finite (roundFloat64 (real_of_int (sint ec) / (real_of_int (sint ms) + 1)))
        \<and> healthStatus ec ms =
          (if 1 / 2 < real_of_int (sint ec) / (real_of_int (sint ms) + 1) then ''unhealthy''
           else if 1 / 10 < real_of_int (sint ec) / (real_of_int (sint ms) + 1)
           then ''degraded'' else ''healthy'')"
  proof (intro impI conjI)
    assume h: "0 \<le> sint ec \<and> sint ec < 2 ^ 53 \<and> 0 \<le> sint ms \<and> sint ms < 2 ^ 52"
    then have "sint ms < 2 ^ 53 - 1" by simp
    with h show "errorRate ec ms
          = Finite (roundFloat64 (real_of_int (sint ec) / (real_of_int (sint ms) + 1)))"
      by (intro errorRate_small) simp_all
    from h show "healthStatus ec ms =
          (if 1 / 2 < real_of_int (sint ec) / (real_of_int (sint ms) + 1) then ''unhealthy''
           else if 1 / 10 < real_of_int (sint ec) / (real_of_int (sint ms) + 1)
           then ''degraded'' else ''healthy'')"
      by (intro healthStatus_exact) simp_all
  qed
  have d: "Status (fst (Health s)) = healthStatus (errorCount s) (messagesSent s)"
    by (simp add: Health_def Let_def split: prod.splits)
  from a b c d healthStatus_examples show ?thesis by blast
qed

theorem Health_status_derivation_witness:
  "0 \<le> sint (6 :: 64 word) \<and> sint (6 :: 64 word) < 2 ^ 53
   \<and> 0 \<le> sint (10 :: 64 word) \<and> sint (10 :: 64 word) < 2 ^ 52
   \<and> sint (10 + 1 :: 64 word) \<noteq> 0
   \<and> float64_of_int64 (10 + 1) \<noteq> 0
   \<and> errorRate 6 10 = Finite (roundFloat64 (6 / 11))
   \<and> healthStatus 6 10 = ''unhealthy''
   \<and> Status (fst (Health demoSender)) = ''healthy''"
  using Health_status_derivation [of 10 6 demoSender]
  by (simp add: demoSender_def)



section \<open>The codec\<close>





text \<open>
  C7, as the code has it. \<open>Serialize\<close> fails exactly when the message is nil or is a value
  that \<^verbatim>\<open>json.Marshal\<close> refuses. \<open>Deserialize\<close> fails on empty data, whatever the target, and
  on non-empty data with a nil target. On non-empty data and a valid target, which is a
  pointer to a variable, it returns: with the string of the bytes for a string target,
  with a copy of the bytes for a byte-slice target, and for another target with the error
  of \<^verbatim>\<open>json.Unmarshal\<close> wrapped when that fails and with the decoded value when it does not.
  With non-empty data and a nil \<^verbatim>\<open>*string\<close> or a nil \<^verbatim>\<open>*[]byte\<close> it panics.
\<close>

theorem codec_failures:
  "((\<exists>e. Serialize jsonMarshal m = Inl e) \<longleftrightarrow>
      m = NilMessage \<or> (\<exists>v e. m = Other v \<and> jsonMarshal v = Inl e))
   \<and> Serialize jsonMarshal NilMessage = Inl (Errorf ''message cannot be nil'')
   \<and> (\<forall>v e. jsonMarshal v = Inl e \<longrightarrow>
        Serialize jsonMarshal (Other v)
          = Inl (Wrapf ''failed to serialize message to JSON: '' e))
   \<and> Deserialize jsonUnmarshal [] target = Return (Inl (Errorf ''data cannot be empty''))
   \<and> (data \<noteq> [] \<longrightarrow>
        Deserialize jsonUnmarshal data NilTarget = Return (Inl (Errorf ''target cannot be nil''))
        \<and> Deserialize jsonUnmarshal data StringPtr = Return (Inr (Str (string_of_bytes data)))
        \<and> Deserialize jsonUnmarshal data BytesPtr = Return (Inr (Bytes data))
        \<and> Deserialize jsonUnmarshal data NilStringPtr = Panic
        \<and> Deserialize jsonUnmarshal data NilBytesPtr = Panic
        \<and> (\<forall>e. jsonUnmarshal data t = Inl e \<longrightarrow>
              Deserialize jsonUnmarshal data (OtherPtr t)
                = Return (Inl (Wrapf ''failed to deserialize JSON to target: '' e)))
        \<and> (\<forall>v. jsonUnmarshal data t = Inr v \<longrightarrow>
              Deserialize jsonUnmarshal data (OtherPtr t) = Return (Inr (Other v))))"
  by (cases m) (auto simp: Serialize_def Deserialize_def split: sum.splits)

theorem codec_failures_witness:
  "(\<exists>e. Serialize goMarshal (Other GoNaN) = Inl e)
   \<and> goMarshal GoNaN = Inl (Errorf ''json: unsupported value: NaN'')
   \<and> bytes_of_string ''{invalid json'' \<noteq> []
   \<and> Deserialize goUnmarshal (bytes_of_string ''{invalid json'') StringPtr
        = Return (Inr (Str (string_of_bytes (bytes_of_string ''{invalid json''))))
   \<and> Deserialize goUnmarshal (bytes_of_string ''{invalid json'') NilStringPtr = Panic
   \<and> goUnmarshal (bytes_of_string ''{invalid json'') BoolType
        = Inl (Errorf ''json: cannot unmarshal into Go value of type bool'')
   \<and> Deserialize goUnmarshal (bytes_of_string ''{invalid json'') (OtherPtr BoolType)
        = Return (Inl (Wrapf ''failed to deserialize JSON to target: ''
            (Errorf ''json: cannot unmarshal into Go value of type bool'')))"
  using
    codec_failures [of goMarshal "Other GoNaN" goUnmarshal NilTarget
      "bytes_of_string ''{invalid json''" BoolType]
  by (simp add: bytes_of_string_def)

text \<open>
  C7 as stated fails: a float64 \<^verbatim>\<open>NaN\<close> is not nil, and \<open>Serialize\<close> fails on it with the
  wrapped error of \<^verbatim>\<open>json.Marshal\<close>.
\<close>

theorem serialize_fails_on_non_nil_counterexample:
  "Other GoNaN \<noteq> NilMessage
   \<and> Serialize goMarshal (Other GoNaN)
       = Inl (Wrapf ''failed to serialize message to JSON: '' (Errorf ''json: unsupported value: NaN''))"
  by (simp add: Serialize_def)



section \<open>Validation of the configuration\<close>

text \<open>
  C9, as the code has it. \<open>validate\<close> accepts a configuration exactly when the listed
  conditions hold and, in addition, the min idle connections are not negative, the
  max retries are not negative and the retry delay is at least one millisecond;
  \<open>LoadConfig\<close> returns the configuration in that case and a validation error otherwise.
\<close>

theorem validate_accepts_iff:
  "(validate c = None \<longleftrightarrow>
      spec_accepts c \<and> 0 \<le> MinIdleConns c \<and> 0 \<le> MaxRetries c \<and> Millisecond \<le> RetryDelay c)
   \<and> (LoadConfig c = Inr c \<longleftrightarrow> validate c = None)
   \<and> (validate c \<noteq> None \<longrightarrow> (\<exists>e. LoadConfig c = Inl e))"
  by (auto simp: validate_def spec_accepts_def LoadConfig_def split: option.splits)

theorem validate_accepts_iff_witness:
  "validate defaultConfig = None \<and> spec_accepts defaultConfig
   \<and> LoadConfig defaultConfig = Inr defaultConfig
   \<and> validate (defaultConfig\<lparr>TLSEnabled := True\<rparr>) \<noteq> None
   \<and> (\<exists>e. LoadConfig (defaultConfig\<lparr>TLSEnabled := True\<rparr>) = Inl e)"
  using validate_accepts_iff [of defaultConfig]
    validate_accepts_iff [of "defaultConfig\<lparr>TLSEnabled := True\<rparr>"]
  by (simp add: spec_accepts_def defaultConfig_def Second_def Millisecond_def)

text \<open>
  C9 as stated fails: the default configuration with max retries set to \<open>-1\<close> meets every
  listed condition and is rejected.
\<close>

theorem validate_listed_conditions_counterexample:
  "spec_accepts (defaultConfig\<lparr>MaxRetries := -1\<rparr>)
   \<and> validate (defaultConfig\<lparr>MaxRetries := -1\<rparr>) = Some ''max retries cannot be negative''"
  by (simp add: spec_accepts_def validate_def defaultConfig_def Second_def Millisecond_def)

section \<open>How the loops and the requests change the state\<close>

lemma prepareEnvelopes_state:
  "prepareEnvelopes ext queue i messages s = (r, s') \<Longrightarrow>
     \<exists>k \<le> length messages. s' = s\<lparr>ticks := ticks s + k, uuids := uuids s + k\<rparr>
       \<and> (\<forall>es. r = Inr es \<longrightarrow> k = length messages)"
proof (induction messages arbitrary: i s r s')
  case Nil
  then show ?case by auto
next
  case (Cons m ms)
  show ?case
  proof (cases "Serialize (Marshal ext) m")
    case (Inl e)
    with Cons.prems show ?thesis
      by (auto simp: timeNow_def uuidNew_def Let_def intro!: exI [of _ 1])
  next
    case (Inr payload)
    let ?s2 = "s\<lparr>uuids := uuids s + 1, ticks := ticks s + 1\<rparr>"
    let ?env = "\<lparr>ID = uuid_at s (uuids s), Queue = queue, Payload = payload, Headers = [],
                      Timestamp = now_at s (ticks s), TTL = MessageTTL (config s), Retries = 0,
                      Metadata = []\<rparr>"
    show ?thesis
    proof (cases "SerializeMessageEnvelope ext ?env")
      case (Inl e)
      with Inr Cons.prems show ?thesis
        by (auto simp: timeNow_def uuidNew_def Let_def intro!: exI [of _ 1])
    next
      case sInr: (Inr data)
      obtain r2 s3 where rec: "prepareEnvelopes ext queue (i + 1) ms ?s2 = (r2, s3)"
        by (cases "prepareEnvelopes ext queue (i + 1) ms ?s2")
      from Cons.IH [OF rec] obtain k where k: "k \<le> length ms"
        "s3 = ?s2\<lparr>ticks := ticks ?s2 + k, uuids := uuids ?s2 + k\<rparr>"
        "\<forall>es. r2 = Inr es \<longrightarrow> k = length ms" by blast
      from Cons.prems Inr sInr rec have s': "s' = s3" 
        and r: "r = (case r2 of Inl e \<Rightarrow> Inl e | Inr es \<Rightarrow> Inr ((?env, data) # es))"
        by (auto simp: timeNow_def uuidNew_def Let_def split: sum.splits)
      show ?thesis
        apply (rule exI [of _ "Suc k"])
        using k s' r by (auto split: sum.splits)
    qed
  qed
qed



lemma map_upt_shift: "map f [Suc 0..<Suc n] = map (\<lambda>k. f (Suc k)) [0..<n]"
  by (simp add: map_Suc_upt [symmetric] del: upt_Suc)

lemma prepareEnvelopes_Inr:
  "prepareEnvelopes ext queue i messages s = (Inr es, s') \<Longrightarrow>
     length es = length messages
     \<and> map (ID \<circ> fst) es = map (\<lambda>k. uuid_at s (uuids s + k)) [0..<length messages]
     \<and> map (Timestamp \<circ> fst) es = map (\<lambda>k. now_at s (ticks s + k)) [0..<length messages]
     \<and> map (\<lambda>ed. Inr (Payload (fst ed))) es = map (Serialize (Marshal ext)) messages
     \<and> (\<forall>ed \<in> set es. TTL (fst ed) = MessageTTL (config s) \<and> Queue (fst ed) = queue
           \<and> SerializeMessageEnvelope ext (fst ed) = Inr (snd ed))"
proof (induction messages arbitrary: i s es s')
  case Nil
  then show ?case by auto
next
  case (Cons m ms)
  let ?s2 = "s\<lparr>uuids := uuids s + 1, ticks := ticks s + 1\<rparr>"
  from Cons.prems obtain payload where p: "Serialize (Marshal ext) m = Inr payload"
    by (cases "Serialize (Marshal ext) m") (auto simp: timeNow_def uuidNew_def Let_def)
  let ?env = "\<lparr>ID = uuid_at s (uuids s), Queue = queue, Payload = payload, Headers = [],
                Timestamp = now_at s (ticks s), TTL = MessageTTL (config s), Retries = 0,
                Metadata = []\<rparr>"
  from Cons.prems p obtain data where d: "SerializeMessageEnvelope ext ?env = Inr data"
    by (cases "SerializeMessageEnvelope ext ?env") (auto simp: timeNow_def uuidNew_def Let_def)
  obtain r2 s3 where rec: "prepareEnvelopes ext queue (i + 1) ms ?s2 = (r2, s3)"
    by (cases "prepareEnvelopes ext queue (i + 1) ms ?s2")
  from Cons.prems p d rec obtain es2 where r2: "r2 = Inr es2" and es: "es = (?env, data) # es2"
    by (cases r2) (auto simp: timeNow_def uuidNew_def Let_def)
  note IH = Cons.IH [OF rec [unfolded r2]]
  have u: "[0..<length (m # ms)] = 0 # [Suc 0..<Suc (length ms)]"
    by (simp add: upt_conv_Cons del: upt_Suc)
  show ?case
    unfolding u es using IH p d
    by (simp add: map_upt_shift del: upt_Suc)
qed

lemma notifyBatch_eq:
  "notifyBatch queue start i messages s =
     s\<lparr>uuids := uuids s + length messages,
       trace := trace s @ map (\<lambda>k. SuccessHandlerCall
          \<lparr>md_Queue = queue, md_Position = int (i + k), md_MessageID = uuid_at s (uuids s + k),
           md_Headers = [], md_Timestamp = start, md_TTL = MessageTTL (config s), md_Size = 0\<rparr>)
          [0..<length messages]\<rparr>"
proof (induction messages arbitrary: i s)
  case Nil
  then show ?case by simp
next
  case (Cons m ms)
  have u: "[0..<length (m # ms)] = 0 # [Suc 0..<Suc (length ms)]"
    by (simp add: upt_conv_Cons del: upt_Suc)
  show ?case
    unfolding u
    by (simp add: Cons.IH uuidNew_def emit_def map_upt_shift del: upt_Suc)
qed

lemma Execute_rejected:
  "beforeRequest (circuitBreaker s) (now_at s (ticks s)) = (Inl e, cb1) \<Longrightarrow>
   Execute req s = (Some e, s\<lparr>ticks := ticks s + 1, circuitBreaker := cb1\<rparr>)"
  by (simp add: Execute_def timeNow_def)

lemma Execute_ran:
  "beforeRequest (circuitBreaker s) (now_at s (ticks s)) = (Inr g, cb1) \<Longrightarrow>
   req (s\<lparr>ticks := ticks s + 1, circuitBreaker := cb1\<rparr>) = (r, s3) \<Longrightarrow>
   Execute req s = (r, s3\<lparr>ticks := ticks s3 + 1,
      circuitBreaker := afterRequest (circuitBreaker s3) g (r = None) (now_at s3 (ticks s3))\<rparr>)"
  by (simp add: Execute_def timeNow_def)

lemma Execute_None:
  assumes "Execute req s = (None, s')"
  shows "\<exists>g cb1 s3.
     beforeRequest (circuitBreaker s) (now_at s (ticks s)) = (Inr g, cb1)
     \<and> req (s\<lparr>ticks := ticks s + 1, circuitBreaker := cb1\<rparr>) = (None, s3)
     \<and> s' = s3\<lparr>ticks := ticks s3 + 1,
          circuitBreaker := afterRequest (circuitBreaker s3) g True (now_at s3 (ticks s3))\<rparr>"
proof -
  obtain r cb1 where b: "beforeRequest (circuitBreaker s) (now_at s (ticks s)) = (r, cb1)"
    by (cases "beforeRequest (circuitBreaker s) (now_at s (ticks s))")
  show ?thesis
  proof (cases r)
    case (Inl e)
    with b assms show ?thesis by (simp add: Execute_rejected)
  next
    case (Inr g)
    obtain r3 s3 where q: "req (s\<lparr>ticks := ticks s + 1, circuitBreaker := cb1\<rparr>) = (r3, s3)"
      by (cases "req (s\<lparr>ticks := ticks s + 1, circuitBreaker := cb1\<rparr>)")
    from Execute_ran [where req = req, OF b [unfolded Inr] q] assms show ?thesis
      using b Inr q by auto
  qed
qed

text \<open>A field that the request leaves alone, and that does not depend on the clock
  position or on the breaker, is left alone by \<open>Execute\<close>.\<close>

lemma Execute_preserves:
  assumes ex: "Execute req s = (r, s')"
    and req: "\<And>s r s'. req s = (r, s') \<Longrightarrow> f s' = f s"
    and upd: "\<And>s t cb. f (s\<lparr>ticks := t, circuitBreaker := cb\<rparr>) = f s"
  shows "f s' = f s"
proof -
  obtain b cb1 where b: "beforeRequest (circuitBreaker s) (now_at s (ticks s)) = (b, cb1)"
    by (cases "beforeRequest (circuitBreaker s) (now_at s (ticks s))")
  show ?thesis
  proof (cases b)
    case (Inl e)
    with b ex show ?thesis by (auto simp: Execute_rejected upd)
  next
    case (Inr g)
    obtain r3 s3 where q: "req (s\<lparr>ticks := ticks s + 1, circuitBreaker := cb1\<rparr>) = (r3, s3)"
      by (cases "req (s\<lparr>ticks := ticks s + 1, circuitBreaker := cb1\<rparr>)")
    from Execute_ran [where req = req, OF b [unfolded Inr] q] ex have "s' = s3\<lparr>ticks := ticks s3 + 1,
      circuitBreaker := afterRequest (circuitBreaker s3) g (r3 = None) (now_at s3 (ticks s3))\<rparr>"
      by simp
    then have "f s' = f s3" by (simp add: upd)
    also have "\<dots> = f (s\<lparr>ticks := ticks s + 1, circuitBreaker := cb1\<rparr>)" by (rule req [OF q])
    finally show ?thesis by (simp add: upd)
  qed
qed

lemma sendMessageInternal_None:
  assumes "sendMessageInternal ext env queue message ttl s = (None, s')"
  shows "\<exists>payload data.
     Serialize (Marshal ext) message = Inr payload
     \<and> SerializeMessageEnvelope ext
          \<lparr>ID = uuid_at s (uuids s), Queue = queue, Payload = payload, Headers = [],
           Timestamp = now_at s (ticks s), TTL = ttl, Retries = 0, Metadata = []\<rparr> = Inr data
     \<and> execResult env = None
     \<and> s' = s\<lparr>uuids := uuids s + 1, ticks := ticks s + 1,
              trace := trace s @ [PipelineExec (getQueueKey s queue) [data] ttl],
              lists := (lists s)(getQueueKey s queue \<mapsto>
                 data # (case lists s (getQueueKey s queue) of None \<Rightarrow> [] | Some xs \<Rightarrow> xs)),
              ttls := (ttls s)(getQueueKey s queue \<mapsto> ttl),
              isConnected := True\<rparr>"
  using assms
  by (auto simp: sendMessageInternal_def uuidNew_def timeNow_def Let_def pipelineExec_def emit_def
      setConnectionState_def getQueueKey_def split: sum.splits option.splits)

text \<open>What a request may change: the positions of the clock and of the UUID source, the
  store, the connection flag, and the trace, to which it adds no handler call.\<close>

lemma sendMessageInternal_shape:
  assumes "sendMessageInternal ext env queue message ttl s = (r, s')"
  shows "\<exists>tr ls ts c. s' = s\<lparr>uuids := uuids s + 1, ticks := ticks s + 1,
              trace := trace s @ tr, lists := ls, ttls := ts, isConnected := c\<rparr>
            \<and> errorCalls tr = 0 \<and> (execResult env \<noteq> None \<longrightarrow> r \<noteq> None \<and> ls = lists s)"
proof -
  let ?s2 = "s\<lparr>uuids := uuids s + 1, ticks := ticks s + 1\<rparr>"
  have triv: "?s2 = s\<lparr>uuids := uuids s + 1, ticks := ticks s + 1,
              trace := trace s @ [], lists := lists s, ttls := ttls s, isConnected := isConnected s\<rparr>"
    by simp
  show ?thesis
  proof (cases "Serialize (Marshal ext) message")
    case (Inl e)
    with assms have "s' = ?s2" "r \<noteq> None"
      by (auto simp: sendMessageInternal_def uuidNew_def timeNow_def Let_def)
    with triv show ?thesis
      by (intro exI [of _ "[]"] exI [of _ "lists s"] exI [of _ "ttls s"] exI [of _ "isConnected s"])
        (simp add: errorCalls_def)
  next
    case (Inr payload)
    let ?env = "\<lparr>ID = uuid_at s (uuids s), Queue = queue, Payload = payload, Headers = [],
           Timestamp = now_at s (ticks s), TTL = ttl, Retries = 0, Metadata = []\<rparr>"
    show ?thesis
    proof (cases "SerializeMessageEnvelope ext ?env")
      case (Inl e)
      with Inr assms have "s' = ?s2" "r \<noteq> None"
        by (auto simp: sendMessageInternal_def uuidNew_def timeNow_def Let_def)
      with triv show ?thesis
        by (intro exI [of _ "[]"] exI [of _ "lists s"] exI [of _ "ttls s"] exI [of _ "isConnected s"])
          (simp add: errorCalls_def)
    next
      case sInr: (Inr data)
      show ?thesis
      proof (cases "execResult env")
        case None
        with Inr sInr assms show ?thesis
          by (intro exI [of _ "[PipelineExec (getQueueKey s queue) [data] ttl]"]
              exI [of _ "(lists s)(getQueueKey s queue \<mapsto>
                 data # (case lists s (getQueueKey s queue) of None \<Rightarrow> [] | Some xs \<Rightarrow> xs))"]
              exI [of _ "(ttls s)(getQueueKey s queue \<mapsto> ttl)"] exI [of _ True])
            (auto simp: sendMessageInternal_def uuidNew_def timeNow_def Let_def pipelineExec_def
              emit_def setConnectionState_def getQueueKey_def errorCalls_def)
      next
        case (Some e)
        with Inr sInr assms show ?thesis
          by (intro exI [of _ "[PipelineExec (getQueueKey s queue) [data] ttl]"]
              exI [of _ "lists s"] exI [of _ "ttls s"] exI [of _ False])
            (auto simp: sendMessageInternal_def uuidNew_def timeNow_def Let_def pipelineExec_def
              emit_def setConnectionState_def getQueueKey_def errorCalls_def)
      qed
    qed
  qed
qed

lemma sendBatchInternal_None:
  assumes "sendBatchInternal ext env queue messages s = (None, s')"
  shows "\<exists>es. prepareEnvelopes ext queue 0 messages s =
           (Inr es, s\<lparr>ticks := ticks s + length messages, uuids := uuids s + length messages\<rparr>)
     \<and> execResult env = None
     \<and> s' = s\<lparr>ticks := ticks s + length messages, uuids := uuids s + length messages,
              trace := trace s @ [PipelineExec (getQueueKey s queue) (map snd es)
                                    (MessageTTL (config s))],
              lists := (lists s)(getQueueKey s queue \<mapsto>
                 rev (map snd es) @
                   (case lists s (getQueueKey s queue) of None \<Rightarrow> [] | Some xs \<Rightarrow> xs)),
              ttls := (ttls s)(getQueueKey s queue \<mapsto> MessageTTL (config s)),
              isConnected := True\<rparr>"
proof -
  obtain r1 s1 where p: "prepareEnvelopes ext queue 0 messages s = (r1, s1)"
    by (cases "prepareEnvelopes ext queue 0 messages s")
  from prepareEnvelopes_state [OF p] obtain k where
    k: "s1 = s\<lparr>ticks := ticks s + k, uuids := uuids s + k\<rparr>"
       "\<forall>es. r1 = Inr es \<longrightarrow> k = length messages" by blast
  from assms p obtain es where es: "r1 = Inr es"
    by (cases r1) (auto simp: sendBatchInternal_def)
  with k have s1: "s1 = s\<lparr>ticks := ticks s + length messages, uuids := uuids s + length messages\<rparr>"
    by simp
  from assms p es s1 show ?thesis
    by (intro exI [of _ es])
      (auto simp: sendBatchInternal_def Let_def pipelineExec_def emit_def
        setConnectionState_def getQueueKey_def split: option.splits)
qed

lemma sendBatchInternal_shape:
  assumes "sendBatchInternal ext env queue messages s = (r, s')"
  shows "\<exists>k tr ls ts c. k \<le> length messages
            \<and> s' = s\<lparr>uuids := uuids s + k, ticks := ticks s + k,
              trace := trace s @ tr, lists := ls, ttls := ts, isConnected := c\<rparr>
            \<and> errorCalls tr = 0 \<and> (execResult env \<noteq> None \<longrightarrow> r \<noteq> None \<and> ls = lists s)"
proof -
  obtain r1 s1 where p: "prepareEnvelopes ext queue 0 messages s = (r1, s1)"
    by (cases "prepareEnvelopes ext queue 0 messages s")
  from prepareEnvelopes_state [OF p] obtain k where
    k: "k \<le> length messages" "s1 = s\<lparr>ticks := ticks s + k, uuids := uuids s + k\<rparr>" by blast
  have triv: "s1 = s\<lparr>uuids := uuids s + k, ticks := ticks s + k,
              trace := trace s @ [], lists := lists s, ttls := ttls s, isConnected := isConnected s\<rparr>"
    using k by simp
  show ?thesis
  proof (cases r1)
    case (Inl e)
    with assms p have "s' = s1" "r \<noteq> None"
      by (auto simp: sendBatchInternal_def)
    with triv k show ?thesis
      by (intro exI [of _ k] exI [of _ "[]"] exI [of _ "lists s"] exI [of _ "ttls s"]
          exI [of _ "isConnected s"]) (simp add: errorCalls_def)
  next
    case (Inr es)
    show ?thesis
    proof (cases "execResult env")
      case None
      with Inr assms p k show ?thesis
        by (intro exI [of _ k] exI [of _ "[PipelineExec (getQueueKey s queue) (map snd es)
                                    (MessageTTL (config s))]"]
            exI [of _ "(lists s)(getQueueKey s queue \<mapsto>
                 rev (map snd es) @
                   (case lists s (getQueueKey s queue) of None \<Rightarrow> [] | Some xs \<Rightarrow> xs))"]
            exI [of _ "(ttls s)(getQueueKey s queue \<mapsto> MessageTTL (config s))"] exI [of _ True])
          (auto simp: sendBatchInternal_def Let_def pipelineExec_def
            emit_def setConnectionState_def getQueueKey_def errorCalls_def)
    next
      case (Some e)
      with Inr assms p k show ?thesis
        by (intro exI [of _ k] exI [of _ "[PipelineExec (getQueueKey s queue) (map snd es)
                                    (MessageTTL (config s))]"]
            exI [of _ "lists s"] exI [of _ "ttls s"] exI [of _ False])
          (auto simp: sendBatchInternal_def Let_def pipelineExec_def
            emit_def setConnectionState_def getQueueKey_def errorCalls_def)
    qed
  qed
qed

lemma prepareEnvelopes_Inr_ex:
  assumes "\<forall>m \<in> set messages. \<exists>p. Serialize (Marshal ext) m = Inr p"
    and "\<forall>e. \<exists>d. MarshalEnvelope ext e = Inr d"
  shows "\<exists>es s'. prepareEnvelopes ext queue i messages s = (Inr es, s')"
  using assms(1)
proof (induction messages arbitrary: i s)
  case Nil
  then show ?case by simp
next
  case (Cons m ms)
  from Cons.prems obtain p where p: "Serialize (Marshal ext) m = Inr p" by auto
  let ?s2 = "s\<lparr>uuids := uuids s + 1, ticks := ticks s + 1\<rparr>"
  let ?env = "\<lparr>ID = uuid_at s (uuids s), Queue = queue, Payload = p, Headers = [],
                Timestamp = now_at s (ticks s), TTL = MessageTTL (config s), Retries = 0,
                Metadata = []\<rparr>"
  from assms(2) obtain d where d: "MarshalEnvelope ext ?env = Inr d" by blast
  from Cons.prems have "\<forall>m \<in> set ms. \<exists>p. Serialize (Marshal ext) m = Inr p" by simp
  from Cons.IH [OF this, of "i + 1" ?s2] obtain es s' where
    rec: "prepareEnvelopes ext queue (i + 1) ms ?s2 = (Inr es, s')" by blast
  show ?case
    using p d rec
    by (simp add: uuidNew_def timeNow_def Let_def SerializeMessageEnvelope_def)
qed

lemma prepareEnvelopes_succeeds:
  assumes "\<forall>m \<in> set messages. \<exists>p. Serialize (Marshal ext) m = Inr p"
    and "\<forall>e. \<exists>d. MarshalEnvelope ext e = Inr d"
  shows "\<exists>es. prepareEnvelopes ext queue i messages s =
      (Inr es, s\<lparr>ticks := ticks s + length messages, uuids := uuids s + length messages\<rparr>)"
proof -
  from prepareEnvelopes_Inr_ex [OF assms] obtain es s' where
    p: "prepareEnvelopes ext queue i messages s = (Inr es, s')" by blast
  from prepareEnvelopes_state [OF p] have
    "s' = s\<lparr>ticks := ticks s + length messages, uuids := uuids s + length messages\<rparr>"
    by auto
  with p show ?thesis by blast
qed

lemma SendBatch_after_Execute:
  assumes "messages \<noteq> []" and "waitResult env = None"
    and "Execute (sendBatchInternal ext env queue messages)
           (emit LimiterWait (s\<lparr>ticks := ticks s + 1\<rparr>)) = (r, s3)"
  shows "SendBatch ext env queue messages s =
     (case r of
        Some e \<Rightarrow>
          (Some e,
           (if ErrorHandler (options s3) then emit (ErrorHandlerCall e) else id)
             (s3\<lparr>errorCount := errorCount s3 + 1, lastError := Error e\<rparr>))
      | None \<Rightarrow>
          (None,
           (if SuccessHandler (options s3)
            then notifyBatch queue (now_at s (ticks s)) 0 messages else id)
             (s3\<lparr>messagesSent := messagesSent s3 + of_nat (length messages),
                 ticks := ticks s3 + 1, lastSuccess := now_at s3 (ticks s3)\<rparr>)))"
  using assms by (simp add: SendBatch_def timeNow_def Let_def split: option.splits)

lemma SendMessageWithTTL_after_Execute:
  assumes "waitResult env = None"
    and "Execute (sendMessageInternal ext env queue message ttl)
           (emit LimiterWait (s\<lparr>ticks := ticks s + 1\<rparr>)) = (r, s3)"
  shows "SendMessageWithTTL ext env queue message ttl s =
     (case r of
        Some e \<Rightarrow>
          (Some e,
           (if ErrorHandler (options s3) then emit (ErrorHandlerCall e) else id)
             (s3\<lparr>errorCount := errorCount s3 + 1, lastError := Error e\<rparr>))
      | None \<Rightarrow>
          (None,
           (if SuccessHandler (options s3)
            then (\<lambda>s6. emit (SuccessHandlerCall
                    \<lparr>md_Queue = queue, md_Position = 0, md_MessageID = uuid_at s6 (uuids s6),
                     md_Headers = [], md_Timestamp = now_at s (ticks s), md_TTL = ttl,
                     md_Size = 0\<rparr>) (s6\<lparr>uuids := uuids s6 + 1\<rparr>))
            else id)
             (s3\<lparr>messagesSent := messagesSent s3 + 1,
                 ticks := ticks s3 + 1, lastSuccess := now_at s3 (ticks s3)\<rparr>)))"
  using assms
  by (simp add: SendMessageWithTTL_def timeNow_def uuidNew_def Let_def split: option.splits)

text \<open>
  A batch that the rate limiter and the breaker admit, and whose messages all serialize:
  the envelopes, the result and the trace.
\<close>

lemma SendBatch_admitted:
  assumes ne: "messages \<noteq> []" and w: "waitResult env = None"
    and adm: "fst (beforeRequest (circuitBreaker s) (now_at s (ticks s + 1))) = Inr g"
    and ser: "\<forall>m \<in> set messages. \<exists>p. Serialize (Marshal ext) m = Inr p"
    and enc: "\<forall>e. \<exists>d. MarshalEnvelope ext e = Inr d"
  shows "\<exists>es.
      length es = length messages
    \<and> map (ID \<circ> fst) es = map (\<lambda>k. uuid_at s (uuids s + k)) [0..<length messages]
    \<and> map (Timestamp \<circ> fst) es = map (\<lambda>k. now_at s (ticks s + 2 + k)) [0..<length messages]
    \<and> map (\<lambda>ed. Inr (Payload (fst ed))) es = map (Serialize (Marshal ext)) messages
    \<and> (\<forall>ed \<in> set es. TTL (fst ed) = MessageTTL (config s) \<and> Queue (fst ed) = queue
          \<and> SerializeMessageEnvelope ext (fst ed) = Inr (snd ed))
    \<and> fst (SendBatch ext env queue messages s) =
        (case execResult env of
           None \<Rightarrow> None
         | Some e \<Rightarrow> Some (Wrapf (''failed to send batch to queue '' @ queue @ '': '') e))
    \<and> trace (snd (SendBatch ext env queue messages s)) =
        trace s @ [LimiterWait,
          PipelineExec (getQueueKey s queue) (map snd es) (MessageTTL (config s))]
        @ (case execResult env of
             None \<Rightarrow>
               if SuccessHandler (options s)
               then map (\<lambda>k. SuccessHandlerCall
                      \<lparr>md_Queue = queue, md_Position = int k,
                       md_MessageID = uuid_at s (uuids s + length messages + k),
                       md_Headers = [], md_Timestamp = now_at s (ticks s),
                       md_TTL = MessageTTL (config s), md_Size = 0\<rparr>) [0..<length messages]
               else []
           | Some e \<Rightarrow>
               if ErrorHandler (options s)
               then [ErrorHandlerCall
                      (Wrapf (''failed to send batch to queue '' @ queue @ '': '') e)]
               else [])"
proof -
  let ?n = "length messages"
  let ?s2 = "emit LimiterWait (s\<lparr>ticks := ticks s + 1\<rparr>)"
  from adm obtain cb1 where
    b: "beforeRequest (circuitBreaker s) (now_at s (ticks s + 1)) = (Inr g, cb1)"
    by (cases "beforeRequest (circuitBreaker s) (now_at s (ticks s + 1))") simp
  then have b2: "beforeRequest (circuitBreaker ?s2) (now_at ?s2 (ticks ?s2)) = (Inr g, cb1)"
    by (simp add: emit_def)
  let ?s2' = "?s2\<lparr>ticks := ticks ?s2 + 1, circuitBreaker := cb1\<rparr>"
  from prepareEnvelopes_succeeds [OF ser enc] obtain es where
    prep: "prepareEnvelopes ext queue 0 messages ?s2' =
           (Inr es, ?s2'\<lparr>ticks := ticks ?s2' + ?n, uuids := uuids ?s2' + ?n\<rparr>)"
    by blast
  note E = prepareEnvelopes_Inr [OF prep]
  have ids: "map (ID \<circ> fst) es = map (\<lambda>k. uuid_at s (uuids s + k)) [0..<?n]"
    using E by (simp add: emit_def)
  have ts: "map (Timestamp \<circ> fst) es = map (\<lambda>k. now_at s (ticks s + 2 + k)) [0..<?n]"
    using E by (simp add: emit_def add.assoc)
  have pl: "map (\<lambda>ed. Inr (Payload (fst ed))) es = map (Serialize (Marshal ext)) messages"
    using E by simp
  have each: "\<forall>ed \<in> set es. TTL (fst ed) = MessageTTL (config s) \<and> Queue (fst ed) = queue
          \<and> SerializeMessageEnvelope ext (fst ed) = Inr (snd ed)"
    using E by (simp add: emit_def)
  from E have len: "length es = ?n" by simp
  have run: "fst (SendBatch ext env queue messages s) =
        (case execResult env of
           None \<Rightarrow> None
         | Some e \<Rightarrow> Some (Wrapf (''failed to send batch to queue '' @ queue @ '': '') e))
    \<and> trace (snd (SendBatch ext env queue messages s)) =
        trace s @ [LimiterWait,
          PipelineExec (getQueueKey s queue) (map snd es) (MessageTTL (config s))]
        @ (case execResult env of
             None \<Rightarrow>
               if SuccessHandler (options s)
               then map (\<lambda>k. SuccessHandlerCall
                      \<lparr>md_Queue = queue, md_Position = int k,
                       md_MessageID = uuid_at s (uuids s + length messages + k),
                       md_Headers = [], md_Timestamp = now_at s (ticks s),
                       md_TTL = MessageTTL (config s), md_Size = 0\<rparr>) [0..<length messages]
               else []
           | Some e \<Rightarrow>
               if ErrorHandler (options s)
               then [ErrorHandlerCall
                      (Wrapf (''failed to send batch to queue '' @ queue @ '': '') e)]
               else [])"
  proof (cases "execResult env")
    case None
    have req: "sendBatchInternal ext env queue messages ?s2' =
        (None, setConnectionState True
          (snd (pipelineExec env (getQueueKey ?s2' queue) (map snd es) (MessageTTL (config s))
             (?s2'\<lparr>ticks := ticks ?s2' + ?n, uuids := uuids ?s2' + ?n\<rparr>))))"
      unfolding sendBatchInternal_def prep
      using None by (simp add: pipelineExec_def Let_def emit_def)
    note ex = Execute_ran [where req = "sendBatchInternal ext env queue messages", OF b2 req]
    show ?thesis
      unfolding SendBatch_after_Execute [OF ne w ex]
      using None
      by (simp add: pipelineExec_def emit_def setConnectionState_def getQueueKey_def
          notifyBatch_eq comp_def)
  next
    case (Some e)
    have req: "sendBatchInternal ext env queue messages ?s2' =
        (Some (Wrapf (''failed to send batch to queue '' @ queue @ '': '') e),
         setConnectionState False
          (snd (pipelineExec env (getQueueKey ?s2' queue) (map snd es) (MessageTTL (config s))
             (?s2'\<lparr>ticks := ticks ?s2' + ?n, uuids := uuids ?s2' + ?n\<rparr>))))"
      unfolding sendBatchInternal_def prep
      using Some by (simp add: pipelineExec_def Let_def emit_def)
    note ex = Execute_ran [where req = "sendBatchInternal ext env queue messages", OF b2 req]
    show ?thesis
      unfolding SendBatch_after_Execute [OF ne w ex]
      using Some
      by (simp add: pipelineExec_def emit_def setConnectionState_def getQueueKey_def)
  qed
  from len ids ts pl each run show ?thesis
    by (intro exI [of _ es]) blast
qed

text \<open>The same for a single send.\<close>

lemma SendMessageWithTTL_admitted:
  assumes w: "waitResult env = None"
    and adm: "fst (beforeRequest (circuitBreaker s) (now_at s (ticks s + 1))) = Inr g"
    and ser: "Serialize (Marshal ext) message = Inr payload"
    and enc: "\<forall>e. \<exists>d. MarshalEnvelope ext e = Inr d"
  shows "\<exists>data.
      SerializeMessageEnvelope ext
        \<lparr>ID = uuid_at s (uuids s), Queue = queue, Payload = payload, Headers = [],
         Timestamp = now_at s (ticks s + 2), TTL = ttl, Retries = 0, Metadata = []\<rparr> = Inr data
    \<and> fst (SendMessageWithTTL ext env queue message ttl s) =
        (case execResult env of
           None \<Rightarrow> None
         | Some e \<Rightarrow> Some (Wrapf (''failed to send message to queue '' @ queue @ '': '') e))
    \<and> trace (snd (SendMessageWithTTL ext env queue message ttl s)) =
        trace s @ [LimiterWait, PipelineExec (getQueueKey s queue) [data] ttl]
        @ (case execResult env of
             None \<Rightarrow>
               if SuccessHandler (options s)
               then [SuccessHandlerCall
                      \<lparr>md_Queue = queue, md_Position = 0,
                       md_MessageID = uuid_at s (uuids s + 1),
                       md_Headers = [], md_Timestamp = now_at s (ticks s),
                       md_TTL = ttl, md_Size = 0\<rparr>]
               else []
           | Some e \<Rightarrow>
               if ErrorHandler (options s)
               then [ErrorHandlerCall
                      (Wrapf (''failed to send message to queue '' @ queue @ '': '') e)]
               else [])"
proof -
  let ?s2 = "emit LimiterWait (s\<lparr>ticks := ticks s + 1\<rparr>)"
  from adm obtain cb1 where
    b: "beforeRequest (circuitBreaker s) (now_at s (ticks s + 1)) = (Inr g, cb1)"
    by (cases "beforeRequest (circuitBreaker s) (now_at s (ticks s + 1))") simp
  then have b2: "beforeRequest (circuitBreaker ?s2) (now_at ?s2 (ticks ?s2)) = (Inr g, cb1)"
    by (simp add: emit_def)
  let ?s2' = "?s2\<lparr>ticks := ticks ?s2 + 1, circuitBreaker := cb1\<rparr>"
  let ?envelope = "\<lparr>ID = uuid_at s (uuids s), Queue = queue, Payload = payload, Headers = [],
         Timestamp = now_at s (ticks s + 2), TTL = ttl, Retries = 0, Metadata = []\<rparr>"
  from enc obtain data where d: "MarshalEnvelope ext ?envelope = Inr data" by blast
  then have sd: "SerializeMessageEnvelope ext ?envelope = Inr data"
    by (simp add: SerializeMessageEnvelope_def)
  have run: "fst (SendMessageWithTTL ext env queue message ttl s) =
        (case execResult env of
           None \<Rightarrow> None
         | Some e \<Rightarrow> Some (Wrapf (''failed to send message to queue '' @ queue @ '': '') e))
    \<and> trace (snd (SendMessageWithTTL ext env queue message ttl s)) =
        trace s @ [LimiterWait, PipelineExec (getQueueKey s queue) [data] ttl]
        @ (case execResult env of
             None \<Rightarrow>
               if SuccessHandler (options s)
               then [SuccessHandlerCall
                      \<lparr>md_Queue = queue, md_Position = 0,
                       md_MessageID = uuid_at s (uuids s + 1),
                       md_Headers = [], md_Timestamp = now_at s (ticks s),
                       md_TTL = ttl, md_Size = 0\<rparr>]
               else []
           | Some e \<Rightarrow>
               if ErrorHandler (options s)
               then [ErrorHandlerCall
                      (Wrapf (''failed to send message to queue '' @ queue @ '': '') e)]
               else [])"
  proof (cases "execResult env")
    case None
    have req: "sendMessageInternal ext env queue message ttl ?s2' =
        (None, setConnectionState True
          (snd (pipelineExec env (getQueueKey ?s2' queue) [data] ttl
             (?s2'\<lparr>uuids := uuids ?s2' + 1, ticks := ticks ?s2' + 1\<rparr>))))"
      using None ser sd
      by (simp add: sendMessageInternal_def uuidNew_def timeNow_def pipelineExec_def Let_def
          emit_def getQueueKey_def add.assoc)
    note ex = Execute_ran [where req = "sendMessageInternal ext env queue message ttl", OF b2 req]
    show ?thesis
      unfolding SendMessageWithTTL_after_Execute [OF w ex]
      using None
      by (simp add: pipelineExec_def emit_def setConnectionState_def getQueueKey_def)
  next
    case (Some e)
    have req: "sendMessageInternal ext env queue message ttl ?s2' =
        (Some (Wrapf (''failed to send message to queue '' @ queue @ '': '') e),
         setConnectionState False
          (snd (pipelineExec env (getQueueKey ?s2' queue) [data] ttl
             (?s2'\<lparr>uuids := uuids ?s2' + 1, ticks := ticks ?s2' + 1\<rparr>))))"
      using Some ser sd
      by (simp add: sendMessageInternal_def uuidNew_def timeNow_def pipelineExec_def Let_def
          emit_def getQueueKey_def add.assoc)
    note ex = Execute_ran [where req = "sendMessageInternal ext env queue message ttl", OF b2 req]
    show ?thesis
      unfolding SendMessageWithTTL_after_Execute [OF w ex]
      using Some
      by (simp add: pipelineExec_def emit_def setConnectionState_def getQueueKey_def)
  qed
  with sd show ?thesis by blast
qed

section \<open>Failed calls\<close>

lemma errorCalls_append: "errorCalls (xs @ ys) = errorCalls xs + errorCalls ys"
  by (simp add: errorCalls_def)

lemma sendMessageInternal_keeps:
  assumes "sendMessageInternal ext env queue message ttl s = (r, s')"
  shows "errorCount s' = errorCount s" "lastError s' = lastError s" "options s' = options s"
    "errorCalls (trace s') = errorCalls (trace s)" "now_at s' = now_at s"
    "circuitBreaker s' = circuitBreaker s" "ticks s' = ticks s + 1" "config s' = config s"
  using sendMessageInternal_shape [OF assms] by (auto simp: errorCalls_append)

lemma sendBatchInternal_keeps:
  assumes "sendBatchInternal ext env queue messages s = (r, s')"
  shows "errorCount s' = errorCount s" "lastError s' = lastError s" "options s' = options s"
    "errorCalls (trace s') = errorCalls (trace s)" "now_at s' = now_at s"
    "circuitBreaker s' = circuitBreaker s" "ticks s \<le> ticks s'" "config s' = config s"
  using sendBatchInternal_shape [OF assms] by (auto simp: errorCalls_append)

lemma failed_inside_breaker:
  assumes ex: "Execute req s2 = (Some e, s3)"
    and keeps: "\<And>s r s'. req s = (r, s') \<Longrightarrow>
       errorCount s' = errorCount s \<and> options s' = options s
       \<and> errorCalls (trace s') = errorCalls (trace s)"
  shows "errorCount s3 = errorCount s2 \<and> options s3 = options s2
     \<and> errorCalls (trace s3) = errorCalls (trace s2)"
proof -
  have "errorCount s3 = errorCount s2"
    by (rule Execute_preserves [where f = errorCount, OF ex]) (simp_all add: keeps)
  moreover have "options s3 = options s2"
    by (rule Execute_preserves [where f = options, OF ex]) (simp_all add: keeps)
  moreover have "errorCalls (trace s3) = errorCalls (trace s2)"
    by (rule Execute_preserves [where f = "\<lambda>s. errorCalls (trace s)", OF ex]) (simp_all add: keeps)
  ultimately show ?thesis by simp
qed

lemmas run_defs = SendMessageWithTTL_def SendBatch_def Execute_def sendMessageInternal_def
  sendBatchInternal_def timeNow_def uuidNew_def emit_def pipelineExec_def setConnectionState_def
  getQueueKey_def Serialize_def SerializeMessageEnvelope_def beforeRequest_def afterRequest_def
  currentState_def onSuccess_def onFailure_def setState_def toNewGeneration_def
  countOnRequest_def countOnSuccess_def countOnFailure_def clearCounts_def senderReadyToTrip_def
  Let_def

lemmas demo_defs = demoSender_def demoJson_def downEnv_def okEnv_def demoOptions_def
  defaultConfig_def Second_def Millisecond_def

text \<open>
  C3, as the code has it. A send or batch call that reaches the breaker (the rate limiter
  has admitted it and, for a batch, the slice is not empty) and fails, whether the
  breaker rejects it or the codec or the transport fails, increments the error counter
  by one, sets the last-error text to the text of the returned error, and calls the
  error handler once when one is set (and not at all otherwise).
\<close>

theorem failed_call_recorded_once:
  assumes reach: "reachesBreaker env c" and run: "runCall ext env c s = (Some e, s')"
  shows "errorCount s' = errorCount s + 1 \<and> lastError s' = Error e
     \<and> errorCalls (trace s') =
         errorCalls (trace s) + (if ErrorHandler (options s) then 1 else 0)"
proof (cases c)
  case (SendCall queue message ttl)
  let ?s2 = "emit LimiterWait (s\<lparr>ticks := ticks s + 1\<rparr>)"
  obtain r3 s3 where ex: "Execute (sendMessageInternal ext env queue message ttl) ?s2 = (r3, s3)"
    by (cases "Execute (sendMessageInternal ext env queue message ttl) ?s2")
  from reach SendCall have w: "waitResult env = None" by simp
  from run SendCall w ex have r3: "r3 = Some e"
    by (cases r3) (auto simp: SendMessageWithTTL_def timeNow_def Let_def split: if_splits prod.splits)
  have k: "errorCount s3 = errorCount ?s2 \<and> options s3 = options ?s2
    \<and> errorCalls (trace s3) = errorCalls (trace ?s2)"
    by (rule failed_inside_breaker [OF ex [unfolded r3]]) (simp add: sendMessageInternal_keeps)
  from run SendCall w ex r3 have
    "s' = (if ErrorHandler (options s3)
           then emit (ErrorHandlerCall e) (s3\<lparr>errorCount := errorCount s3 + 1, lastError := Error e\<rparr>)
           else s3\<lparr>errorCount := errorCount s3 + 1, lastError := Error e\<rparr>)"
    by (auto simp: SendMessageWithTTL_def timeNow_def Let_def)
  with k show ?thesis
    by (auto simp: emit_def errorCalls_def)
next
  case (BatchCall queue messages)
  let ?s2 = "emit LimiterWait (s\<lparr>ticks := ticks s + 1\<rparr>)"
  obtain r3 s3 where ex: "Execute (sendBatchInternal ext env queue messages) ?s2 = (r3, s3)"
    by (cases "Execute (sendBatchInternal ext env queue messages) ?s2")
  from reach BatchCall have w: "waitResult env = None" and ne: "messages \<noteq> []" by simp_all
  from run BatchCall w ne ex have r3: "r3 = Some e"
    by (cases r3) (auto simp: SendBatch_def timeNow_def Let_def split: if_splits prod.splits)
  have k: "errorCount s3 = errorCount ?s2 \<and> options s3 = options ?s2
    \<and> errorCalls (trace s3) = errorCalls (trace ?s2)"
    by (rule failed_inside_breaker [OF ex [unfolded r3]]) (simp add: sendBatchInternal_keeps)
  from run BatchCall w ne ex r3 have
    "s' = (if ErrorHandler (options s3)
           then emit (ErrorHandlerCall e) (s3\<lparr>errorCount := errorCount s3 + 1, lastError := Error e\<rparr>)
           else s3\<lparr>errorCount := errorCount s3 + 1, lastError := Error e\<rparr>)"
    by (auto simp: SendBatch_def timeNow_def Let_def)
  with k show ?thesis
    by (auto simp: emit_def errorCalls_def)
qed

theorem failed_call_recorded_once_witness:
  "reachesBreaker downEnv (SendCall ''q'' (Str ''hello'') Second)
   \<and> fst (runCall demoJson downEnv (SendCall ''q'' (Str ''hello'') Second) demoSender)
       = Some (Wrapf ''failed to send message to queue q: '' (Errorf ''connection refused''))
   \<and> errorCount (snd (runCall demoJson downEnv (SendCall ''q'' (Str ''hello'') Second) demoSender))
       = 1
   \<and> errorCalls
        (trace (snd (runCall demoJson downEnv (SendCall ''q'' (Str ''hello'') Second) demoSender)))
       = 1"
proof -
  let ?c = "SendCall ''q'' (Str ''hello'') Second :: GoValue Call"
  let ?e = "Wrapf ''failed to send message to queue q: '' (Errorf ''connection refused'')"
  have f: "fst (runCall demoJson downEnv ?c demoSender) = Some ?e"
    by (simp add: run_defs demo_defs)
  then have run: "runCall demoJson downEnv ?c demoSender
      = (Some ?e, snd (runCall demoJson downEnv ?c demoSender))"
    by (simp add: prod_eq_iff)
  have reach: "reachesBreaker downEnv ?c"
    by (simp add: downEnv_def)
  from failed_call_recorded_once [OF reach run] f reach show ?thesis
    by (simp add: demoSender_def demoOptions_def errorCalls_def)
qed

text \<open>
  C3 as stated fails. An empty batch is rejected with an error and the sender is returned
  as it was: with an error handler set, the error counter is still zero, the last-error
  text is still empty and the handler has not been called. The same holds for a call
  that the rate limiter refuses.
\<close>

theorem rejected_call_not_recorded_counterexample:
  "SendBatch demoJson okEnv ''q'' [] demoSender
     = (Some (Errorf ''messages slice cannot be empty''), demoSender)
   \<and> ErrorHandler (options demoSender)
   \<and> errorCount demoSender = 0 \<and> lastError demoSender = [] \<and> trace demoSender = []
   \<and> SendMessageWithTTL demoJson
         \<lparr>waitResult = Some (Errorf ''context deadline exceeded''), execResult = None\<rparr>
         ''q'' (Str ''hello'') Second demoSender
     = (Some (Wrapf ''rate limiter error: '' (Errorf ''context deadline exceeded'')),
        demoSender\<lparr>ticks := 4, trace := [LimiterWait]\<rparr>)"
  by (simp add: SendBatch_def SendMessageWithTTL_def timeNow_def emit_def demoSender_def
      demoOptions_def)

section \<open>The envelopes of a batch\<close>

lemma inj_demo_uuid: "inj (uuid_at demoSender)"
  by (auto simp: demoSender_def inj_def dest: arg_cong [where f = length])

lemma showNat_1: "showNat (Suc 0) = ''1''"
  by code_simp

text \<open>
  C5, as the code has it. Take a non-empty batch that the rate limiter admits and the
  breaker admits, whose messages all serialize. Then \<open>SendBatch\<close> builds one envelope for
  each message and sends their serialized forms in one pipeline, whether or not the
  transport then accepts it. The ids of the envelopes are pairwise different (the UUID
  source never repeats), every envelope carries the configured default TTL, and the
  created-at timestamp of the \<open>k\<close>-th envelope is the clock reading taken when that
  envelope is built: one reading for each envelope, after the reading for the start of
  the call and the reading of the breaker. The call fails exactly when the transport
  does; the one timestamp that is shared is the start of the call, which every metadata
  record given to the success handler carries.
\<close>

theorem batch_envelopes:
  assumes ne: "messages \<noteq> []" and w: "waitResult env = None"
    and adm: "fst (beforeRequest (circuitBreaker s) (now_at s (ticks s + 1))) = Inr g"
    and ser: "\<forall>m \<in> set messages. \<exists>p. Serialize (Marshal ext) m = Inr p"
    and enc: "\<forall>e. \<exists>d. MarshalEnvelope ext e = Inr d"
    and inj: "inj (uuid_at s)"
  shows "\<exists>es.
      length es = length messages
    \<and> distinct (map (ID \<circ> fst) es)
    \<and> map (ID \<circ> fst) es = map (\<lambda>k. uuid_at s (uuids s + k)) [0..<length messages]
    \<and> map (Timestamp \<circ> fst) es = map (\<lambda>k. now_at s (ticks s + 2 + k)) [0..<length messages]
    \<and> map (\<lambda>ed. Inr (Payload (fst ed))) es = map (Serialize (Marshal ext)) messages
    \<and> (\<forall>ed \<in> set es. TTL (fst ed) = MessageTTL (config s) \<and> Queue (fst ed) = queue
          \<and> SerializeMessageEnvelope ext (fst ed) = Inr (snd ed))
    \<and> fst (SendBatch ext env queue messages s) =
        (case execResult env of
           None \<Rightarrow> None
         | Some e \<Rightarrow> Some (Wrapf (''failed to send batch to queue '' @ queue @ '': '') e))
    \<and> trace (snd (SendBatch ext env queue messages s)) =
        trace s @ [LimiterWait,
          PipelineExec (getQueueKey s queue) (map snd es) (MessageTTL (config s))]
        @ (case execResult env of
             None \<Rightarrow>
               if SuccessHandler (options s)
               then map (\<lambda>k. SuccessHandlerCall
                      \<lparr>md_Queue = queue, md_Position = int k,
                       md_MessageID = uuid_at s (uuids s + length messages + k),
                       md_Headers = [], md_Timestamp = now_at s (ticks s),
                       md_TTL = MessageTTL (config s), md_Size = 0\<rparr>) [0..<length messages]
               else []
           | Some e \<Rightarrow>
               if ErrorHandler (options s)
               then [ErrorHandlerCall
                      (Wrapf (''failed to send batch to queue '' @ queue @ '': '') e)]
               else [])"
proof -
  from SendBatch_admitted [OF ne w adm ser enc, of queue] obtain es where
    E: "length es = length messages
    \<and> map (ID \<circ> fst) es = map (\<lambda>k. uuid_at s (uuids s + k)) [0..<length messages]
    \<and> map (Timestamp \<circ> fst) es = map (\<lambda>k. now_at s (ticks s + 2 + k)) [0..<length messages]
    \<and> map (\<lambda>ed. Inr (Payload (fst ed))) es = map (Serialize (Marshal ext)) messages
    \<and> (\<forall>ed \<in> set es. TTL (fst ed) = MessageTTL (config s) \<and> Queue (fst ed) = queue
          \<and> SerializeMessageEnvelope ext (fst ed) = Inr (snd ed))
    \<and> fst (SendBatch ext env queue messages s) =
        (case execResult env of
           None \<Rightarrow> None
         | Some e \<Rightarrow> Some (Wrapf (''failed to send batch to queue '' @ queue @ '': '') e))
    \<and> trace (snd (SendBatch ext env queue messages s)) =
        trace s @ [LimiterWait,
          PipelineExec (getQueueKey s queue) (map snd es) (MessageTTL (config s))]
        @ (case execResult env of
             None \<Rightarrow>
               if SuccessHandler (options s)
               then map (\<lambda>k. SuccessHandlerCall
                      \<lparr>md_Queue = queue, md_Position = int k,
                       md_MessageID = uuid_at s (uuids s + length messages + k),
                       md_Headers = [], md_Timestamp = now_at s (ticks s),
                       md_TTL = MessageTTL (config s), md_Size = 0\<rparr>) [0..<length messages]
               else []
           | Some e \<Rightarrow>
               if ErrorHandler (options s)
               then [ErrorHandlerCall
                      (Wrapf (''failed to send batch to queue '' @ queue @ '': '') e)]
               else [])" ..
  have "x = y" if "uuid_at s (uuids s + x) = uuid_at s (uuids s + y)" for x y
    using injD [OF inj that] by simp
  then have "distinct (map (\<lambda>k. uuid_at s (uuids s + k)) [0..<length messages])"
    by (auto simp: distinct_map inj_on_def)
  with E have d: "distinct (map (ID \<circ> fst) es)" by simp
  from E d show ?thesis
    by (intro exI [of _ es]) blast
qed

theorem batch_envelopes_witness:
  "[Str ''a'', Str ''b'' :: GoValue Message] \<noteq> []
   \<and> waitResult okEnv = None \<and> waitResult downEnv = None
   \<and> fst (beforeRequest (circuitBreaker demoSender)
            (now_at demoSender (ticks demoSender + 1))) = Inr 1
   \<and> Serialize (Marshal demoJson) (Str ''a'') = Inr (bytes_of_string ''a'')
   \<and> Serialize (Marshal demoJson) (Str ''b'') = Inr (bytes_of_string ''b'')
   \<and> (\<forall>e. \<exists>d. MarshalEnvelope demoJson e = Inr d)
   \<and> inj (uuid_at demoSender)
   \<and> (\<exists>(es :: (MessageEnvelope \<times> bytes) list).
        length es = 2
      \<and> distinct (map (ID \<circ> fst) es)
      \<and> map (Timestamp \<circ> fst) es = [5 * Millisecond, 6 * Millisecond]
      \<and> fst (SendBatch demoJson okEnv ''batch'' [Str ''a'', Str ''b''] demoSender) = None
      \<and> trace (snd (SendBatch demoJson okEnv ''batch'' [Str ''a'', Str ''b''] demoSender))
          = [LimiterWait, PipelineExec ''queue:batch'' (map snd es) (86400 * Second),
             SuccessHandlerCall
               \<lparr>md_Queue = ''batch'', md_Position = 0, md_MessageID = ''uuu'',
                md_Headers = [], md_Timestamp = 3 * Millisecond, md_TTL = 86400 * Second,
                md_Size = 0\<rparr>,
             SuccessHandlerCall
               \<lparr>md_Queue = ''batch'', md_Position = 1, md_MessageID = ''uuuu'',
                md_Headers = [], md_Timestamp = 3 * Millisecond, md_TTL = 86400 * Second,
                md_Size = 0\<rparr>])
   \<and> (\<exists>(es :: (MessageEnvelope \<times> bytes) list).
        length es = 2
      \<and> map (Timestamp \<circ> fst) es = [5 * Millisecond, 6 * Millisecond]
      \<and> fst (SendBatch demoJson downEnv ''batch'' [Str ''a'', Str ''b''] demoSender)
          = Some (Wrapf ''failed to send batch to queue batch: '' (Errorf ''connection refused''))
      \<and> trace (snd (SendBatch demoJson downEnv ''batch'' [Str ''a'', Str ''b''] demoSender))
          = [LimiterWait, PipelineExec ''queue:batch'' (map snd es) (86400 * Second),
             ErrorHandlerCall
               (Wrapf ''failed to send batch to queue batch: '' (Errorf ''connection refused''))])"
proof -
  have h1: "[Str ''a'', Str ''b'' :: GoValue Message] \<noteq> []" by simp
  have h2: "waitResult okEnv = None" "waitResult downEnv = None"
    by (simp_all add: okEnv_def downEnv_def)
  have h3: "fst (beforeRequest (circuitBreaker demoSender)
            (now_at demoSender (ticks demoSender + 1))) = Inr 1"
    by (simp add: run_defs demo_defs)
  have h4': "Serialize (Marshal demoJson) (Str ''a'') = Inr (bytes_of_string ''a'')"
    "Serialize (Marshal demoJson) (Str ''b'') = Inr (bytes_of_string ''b'')"
    by (simp_all add: Serialize_def)
  then have h4: "\<forall>m \<in> set [Str ''a'', Str ''b'']. \<exists>p. Serialize (Marshal demoJson) m = Inr p"
    by simp
  have h5: "\<forall>e. \<exists>d. MarshalEnvelope demoJson e = Inr d"
    by (simp add: demoJson_def)
  have c: "trace demoSender = []" "getQueueKey demoSender ''batch'' = ''queue:batch''"
    "MessageTTL (config demoSender) = 86400 * Second"
    "execResult okEnv = None" "execResult downEnv = Some (Errorf ''connection refused'')"
    "SuccessHandler (options demoSender)" "ErrorHandler (options demoSender)"
    "now_at demoSender = (\<lambda>n. int n * Millisecond)" "ticks demoSender = 3"
    "uuid_at demoSender = (\<lambda>n. replicate (n + 1) CHR ''u'')" "uuids demoSender = 0"
    by (simp_all add: demoSender_def demoOptions_def defaultConfig_def getQueueKey_def
        okEnv_def downEnv_def)
  have u: "[0..<2] = [0, 1::nat]" by (simp add: upt_conv_Cons del: upt_Suc)
  have A: "\<exists>(es :: (MessageEnvelope \<times> bytes) list).
        length es = 2
      \<and> distinct (map (ID \<circ> fst) es)
      \<and> map (Timestamp \<circ> fst) es = [5 * Millisecond, 6 * Millisecond]
      \<and> fst (SendBatch demoJson okEnv ''batch'' [Str ''a'', Str ''b''] demoSender) = None
      \<and> trace (snd (SendBatch demoJson okEnv ''batch'' [Str ''a'', Str ''b''] demoSender))
          = [LimiterWait, PipelineExec ''queue:batch'' (map snd es) (86400 * Second),
             SuccessHandlerCall
               \<lparr>md_Queue = ''batch'', md_Position = 0, md_MessageID = ''uuu'',
                md_Headers = [], md_Timestamp = 3 * Millisecond, md_TTL = 86400 * Second,
                md_Size = 0\<rparr>,
             SuccessHandlerCall
               \<lparr>md_Queue = ''batch'', md_Position = 1, md_MessageID = ''uuuu'',
                md_Headers = [], md_Timestamp = 3 * Millisecond, md_TTL = 86400 * Second,
                md_Size = 0\<rparr>]"
    using batch_envelopes [OF h1 h2(1) h3 h4 h5 inj_demo_uuid, of "''batch''"]
    apply (simp add: c u del: upt_Suc)
    apply (elim exE conjE)
    subgoal for es by (rule exI [of _ es]) simp
    done
  have B: "\<exists>(es :: (MessageEnvelope \<times> bytes) list).
        length es = 2
      \<and> map (Timestamp \<circ> fst) es = [5 * Millisecond, 6 * Millisecond]
      \<and> fst (SendBatch demoJson downEnv ''batch'' [Str ''a'', Str ''b''] demoSender)
          = Some (Wrapf ''failed to send batch to queue batch: '' (Errorf ''connection refused''))
      \<and> trace (snd (SendBatch demoJson downEnv ''batch'' [Str ''a'', Str ''b''] demoSender))
          = [LimiterWait, PipelineExec ''queue:batch'' (map snd es) (86400 * Second),
             ErrorHandlerCall
               (Wrapf ''failed to send batch to queue batch: '' (Errorf ''connection refused''))]"
    using batch_envelopes [OF h1 h2(2) h3 h4 h5 inj_demo_uuid, of "''batch''"]
    apply (simp add: c u del: upt_Suc)
    apply (elim exE conjE)
    subgoal for es by (rule exI [of _ es]) simp
    done
  from h1 h2 h3 h4' h5 inj_demo_uuid A B show ?thesis by (intro conjI)
qed

text \<open>
  C5 as stated fails. The loop reads the clock once for each envelope, and with a clock
  that advances between two readings the two envelopes of a batch of two carry different
  timestamps. And a non-empty batch does not always get its envelopes: a batch of two
  whose second message is nil stops at that message and sends nothing, and a batch that
  the rate limiter refuses or the open breaker rejects builds no envelope at all.
\<close>

theorem batch_timestamps_differ_counterexample:
  "fst (prepareEnvelopes demoJson ''batch'' 0 [Str ''a'', Str ''b''] demoSender)
     = Inr [(\<lparr>ID = ''u'', Queue = ''batch'', Payload = bytes_of_string ''a'', Headers = [],
               Timestamp = 3 * Millisecond, TTL = 86400 * Second, Retries = 0, Metadata = []\<rparr>,
             bytes_of_string ''ua''),
            (\<lparr>ID = ''uu'', Queue = ''batch'', Payload = bytes_of_string ''b'', Headers = [],
               Timestamp = 4 * Millisecond, TTL = 86400 * Second, Retries = 0, Metadata = []\<rparr>,
             bytes_of_string ''uub'')]
   \<and> 3 * Millisecond \<noteq> 4 * Millisecond
   \<and> trace (snd (SendBatch demoJson okEnv ''batch'' [Str ''a'', Str ''b''] demoSender))
       ! 1 = PipelineExec ''queue:batch'' [bytes_of_string ''ua'', bytes_of_string ''uub'']
               (86400 * Second)
   \<and> SendBatch demoJson okEnv ''batch'' [Str ''a'', NilMessage] demoSender
       = (Some (Wrapf ''failed to serialize message 1: '' (Errorf ''message cannot be nil'')),
          snd (SendBatch demoJson okEnv ''batch'' [Str ''a'', NilMessage] demoSender))
   \<and> trace (snd (SendBatch demoJson okEnv ''batch'' [Str ''a'', NilMessage] demoSender))
       = [LimiterWait,
          ErrorHandlerCall
            (Wrapf ''failed to serialize message 1: '' (Errorf ''message cannot be nil''))]
   \<and> trace (snd (SendBatch demoJson
         \<lparr>waitResult = Some (Errorf ''context canceled''), execResult = None\<rparr>
         ''batch'' [Str ''a'', Str ''b''] demoSender)) = [LimiterWait]
   \<and> trace (snd (SendBatch demoJson okEnv ''batch'' [Str ''a'', Str ''b'']
         (demoSender\<lparr>circuitBreaker :=
            (circuitBreaker demoSender)\<lparr>state := StateOpen, expiry := Some (60 * Second)\<rparr>\<rparr>)))
       = [LimiterWait, ErrorHandlerCall ErrOpenState]"
  by (simp add: run_defs demo_defs bytes_of_string_def showNat_1 del: showNat.simps)

section \<open>The message id given to the success handler\<close>

text \<open>
  C10. After a successful call with a success handler, the id in the metadata passed to
  the handler is a UUID drawn after the ids of the envelopes: for a single send the
  draw that follows the envelope's, for a batch of \<open>n\<close> messages the draws \<open>n\<close> to
  \<open>2n - 1\<close> after the envelopes' draws \<open>0\<close> to \<open>n - 1\<close>. With a UUID source that never
  repeats, no id given to the handler is the id of an envelope that was pushed. Such
  calls exist: a send or a non-empty batch succeeds when the rate limiter and the
  breaker admit it, the messages serialize and the transport accepts the pipeline.
\<close>

theorem success_metadata_id_fresh:
  assumes inj: "inj (uuid_at s)" and h: "SuccessHandler (options s)"
  shows "(SendMessageWithTTL ext env queue message ttl s = (None, s') \<longrightarrow>
           (\<exists>envelope data md.
               trace s' = trace s @ [LimiterWait,
                  PipelineExec (getQueueKey s queue) [data] ttl, SuccessHandlerCall md]
             \<and> SerializeMessageEnvelope ext envelope = Inr data
             \<and> ID envelope = uuid_at s (uuids s)
             \<and> md_MessageID md = uuid_at s (uuids s + 1)
             \<and> md_MessageID md \<noteq> ID envelope))
       \<and> (SendBatch ext env queue messages s = (None, s'') \<longrightarrow>
           (\<exists>es mds.
               trace s'' = trace s @ [LimiterWait,
                  PipelineExec (getQueueKey s queue) (map snd es) (MessageTTL (config s))]
                  @ map SuccessHandlerCall mds
             \<and> length es = length messages \<and> length mds = length messages
             \<and> (\<forall>ed \<in> set es. SerializeMessageEnvelope ext (fst ed) = Inr (snd ed))
             \<and> map (ID \<circ> fst) es = map (\<lambda>k. uuid_at s (uuids s + k)) [0..<length messages]
             \<and> map md_MessageID mds =
                 map (\<lambda>k. uuid_at s (uuids s + length messages + k)) [0..<length messages]
             \<and> set (map md_MessageID mds) \<inter> set (map (ID \<circ> fst) es) = {}))
       \<and> (waitResult env = None \<and> execResult env = None
            \<and> fst (beforeRequest (circuitBreaker s) (now_at s (ticks s + 1))) = Inr g
            \<and> (\<forall>e. \<exists>d. MarshalEnvelope ext e = Inr d)
            \<and> Serialize (Marshal ext) message = Inr payload
          \<longrightarrow> fst (SendMessageWithTTL ext env queue message ttl s) = None)
       \<and> (waitResult env = None \<and> execResult env = None
            \<and> fst (beforeRequest (circuitBreaker s) (now_at s (ticks s + 1))) = Inr g
            \<and> (\<forall>e. \<exists>d. MarshalEnvelope ext e = Inr d)
            \<and> messages \<noteq> [] \<and> (\<forall>m \<in> set messages. \<exists>p. Serialize (Marshal ext) m = Inr p)
          \<longrightarrow> fst (SendBatch ext env queue messages s) = None)"
proof (intro conjI impI)
  assume run: "SendMessageWithTTL ext env queue message ttl s = (None, s')"
  let ?s2 = "emit LimiterWait (s\<lparr>ticks := ticks s + 1\<rparr>)"
  obtain r3 s3 where ex: "Execute (sendMessageInternal ext env queue message ttl) ?s2 = (r3, s3)"
    by (cases "Execute (sendMessageInternal ext env queue message ttl) ?s2")
  from run have w: "waitResult env = None"
    by (auto simp: SendMessageWithTTL_def timeNow_def Let_def split: option.splits)
  from run w ex have r3: "r3 = None"
    by (cases r3) (auto simp: SendMessageWithTTL_def timeNow_def Let_def)
  from Execute_None [OF ex [unfolded r3]] obtain g cb1 s3' where
    req: "sendMessageInternal ext env queue message ttl
            (?s2\<lparr>ticks := ticks ?s2 + 1, circuitBreaker := cb1\<rparr>) = (None, s3')"
    and s3: "s3 = s3'\<lparr>ticks := ticks s3' + 1,
          circuitBreaker := afterRequest (circuitBreaker s3') g True (now_at s3' (ticks s3'))\<rparr>"
    by blast
  let ?s2' = "?s2\<lparr>ticks := ticks ?s2 + 1, circuitBreaker := cb1\<rparr>"
  from sendMessageInternal_None [OF req] obtain payload data where
    ser: "SerializeMessageEnvelope ext
          \<lparr>ID = uuid_at ?s2' (uuids ?s2'), Queue = queue, Payload = payload, Headers = [],
           Timestamp = now_at ?s2' (ticks ?s2'), TTL = ttl, Retries = 0, Metadata = []\<rparr> = Inr data"
    and s3': "s3' = ?s2'\<lparr>uuids := uuids ?s2' + 1, ticks := ticks ?s2' + 1,
              trace := trace ?s2' @ [PipelineExec (getQueueKey ?s2' queue) [data] ttl],
              lists := (lists ?s2')(getQueueKey ?s2' queue \<mapsto>
                 data # (case lists ?s2' (getQueueKey ?s2' queue) of None \<Rightarrow> [] | Some xs \<Rightarrow> xs)),
              ttls := (ttls ?s2')(getQueueKey ?s2' queue \<mapsto> ttl),
              isConnected := True\<rparr>"
    by blast
  let ?envelope = "\<lparr>ID = uuid_at s (uuids s), Queue = queue, Payload = payload, Headers = [],
           Timestamp = now_at s (ticks s + 2), TTL = ttl, Retries = 0, Metadata = []\<rparr>"
  let ?md = "\<lparr>md_Queue = queue, md_Position = 0, md_MessageID = uuid_at s (uuids s + 1),
      md_Headers = [], md_Timestamp = now_at s (ticks s), md_TTL = ttl, md_Size = 0\<rparr>"
  have ser': "SerializeMessageEnvelope ext ?envelope = Inr data"
    using ser by (simp add: emit_def add.assoc)
  have opts: "SuccessHandler (options s3)"
    using h s3 s3' by (simp add: emit_def)
  have tr: "trace s' = trace s @ [LimiterWait,
                  PipelineExec (getQueueKey s queue) [data] ttl, SuccessHandlerCall ?md]"
    using run w ex r3 opts s3 s3'
    by (auto simp: SendMessageWithTTL_def timeNow_def uuidNew_def Let_def emit_def getQueueKey_def)
  have neq: "uuid_at s (uuids s + 1) \<noteq> uuid_at s (uuids s)"
    using injD [OF inj, of "uuids s + 1" "uuids s"] by auto
  show "\<exists>envelope data md.
               trace s' = trace s @ [LimiterWait,
                  PipelineExec (getQueueKey s queue) [data] ttl, SuccessHandlerCall md]
             \<and> SerializeMessageEnvelope ext envelope = Inr data
             \<and> ID envelope = uuid_at s (uuids s)
             \<and> md_MessageID md = uuid_at s (uuids s + 1)
             \<and> md_MessageID md \<noteq> ID envelope"
    using tr ser' neq
    by (intro exI [of _ ?envelope] exI [of _ data] exI [of _ ?md]) simp
next
  assume run: "SendBatch ext env queue messages s = (None, s'')"
  from run have ne: "messages \<noteq> []"
    by (auto simp: SendBatch_def)
  let ?n = "length messages"
  let ?s2 = "emit LimiterWait (s\<lparr>ticks := ticks s + 1\<rparr>)"
  obtain r3 s3 where ex: "Execute (sendBatchInternal ext env queue messages) ?s2 = (r3, s3)"
    by (cases "Execute (sendBatchInternal ext env queue messages) ?s2")
  from run ne have w: "waitResult env = None"
    by (auto simp: SendBatch_def timeNow_def Let_def split: option.splits)
  from run ne w ex have r3: "r3 = None"
    by (cases r3) (auto simp: SendBatch_def timeNow_def Let_def)
  from Execute_None [OF ex [unfolded r3]] obtain g cb1 s3' where
    req: "sendBatchInternal ext env queue messages
            (?s2\<lparr>ticks := ticks ?s2 + 1, circuitBreaker := cb1\<rparr>) = (None, s3')"
    and s3: "s3 = s3'\<lparr>ticks := ticks s3' + 1,
          circuitBreaker := afterRequest (circuitBreaker s3') g True (now_at s3' (ticks s3'))\<rparr>"
    by blast
  let ?s2' = "?s2\<lparr>ticks := ticks ?s2 + 1, circuitBreaker := cb1\<rparr>"
  from sendBatchInternal_None [OF req] obtain es where
    prep: "prepareEnvelopes ext queue 0 messages ?s2' =
           (Inr es, ?s2'\<lparr>ticks := ticks ?s2' + ?n, uuids := uuids ?s2' + ?n\<rparr>)"
    and s3': "s3' = ?s2'\<lparr>ticks := ticks ?s2' + ?n,
              uuids := uuids ?s2' + ?n,
              trace := trace ?s2' @ [PipelineExec (getQueueKey ?s2' queue) (map snd es)
                                    (MessageTTL (config ?s2'))],
              lists := (lists ?s2')(getQueueKey ?s2' queue \<mapsto>
                 rev (map snd es) @
                   (case lists ?s2' (getQueueKey ?s2' queue) of None \<Rightarrow> [] | Some xs \<Rightarrow> xs)),
              ttls := (ttls ?s2')(getQueueKey ?s2' queue \<mapsto> MessageTTL (config ?s2')),
              isConnected := True\<rparr>"
    by blast
  note E = prepareEnvelopes_Inr [OF prep]
  let ?mds = "map (\<lambda>k. \<lparr>md_Queue = queue, md_Position = int k,
          md_MessageID = uuid_at s (uuids s + ?n + k),
          md_Headers = [], md_Timestamp = now_at s (ticks s),
          md_TTL = MessageTTL (config s), md_Size = 0\<rparr>) [0..<?n]"
  have opts: "SuccessHandler (options s3)"
    using h s3 s3' by (simp add: emit_def)
  have tr: "trace s'' = trace s @ [LimiterWait,
                  PipelineExec (getQueueKey s queue) (map snd es) (MessageTTL (config s))]
                  @ map SuccessHandlerCall ?mds"
    using run ne w ex r3 opts s3 s3'
    by (auto simp: SendBatch_def timeNow_def Let_def emit_def getQueueKey_def notifyBatch_eq
        comp_def)
  have ids: "map (ID \<circ> fst) es = map (\<lambda>k. uuid_at s (uuids s + k)) [0..<?n]"
    using E by (simp add: emit_def)
  have mids: "map md_MessageID ?mds = map (\<lambda>k. uuid_at s (uuids s + ?n + k)) [0..<?n]"
    by (simp add: comp_def)
  have disj: "set (map md_MessageID ?mds) \<inter> set (map (ID \<circ> fst) es) = {}"
  proof -
    have "uuid_at s (uuids s + ?n + j) \<noteq> uuid_at s (uuids s + k)" if "k < ?n" for j k
      using injD [OF inj, of "uuids s + ?n + j" "uuids s + k"] that by auto
    then show ?thesis
      unfolding ids mids by auto
  qed
  have ser: "\<forall>ed \<in> set es. SerializeMessageEnvelope ext (fst ed) = Inr (snd ed)"
    using E by simp
  from E have len: "length es = ?n" by simp
  show "\<exists>es mds.
               trace s'' = trace s @ [LimiterWait,
                  PipelineExec (getQueueKey s queue) (map snd es) (MessageTTL (config s))]
                  @ map SuccessHandlerCall mds
             \<and> length es = length messages \<and> length mds = length messages
             \<and> (\<forall>ed \<in> set es. SerializeMessageEnvelope ext (fst ed) = Inr (snd ed))
             \<and> map (ID \<circ> fst) es = map (\<lambda>k. uuid_at s (uuids s + k)) [0..<length messages]
             \<and> map md_MessageID mds =
                 map (\<lambda>k. uuid_at s (uuids s + length messages + k)) [0..<length messages]
             \<and> set (map md_MessageID mds) \<inter> set (map (ID \<circ> fst) es) = {}"
    apply (rule exI [of _ es], rule exI [of _ ?mds])
    using tr len ser ids mids disj by simp
next
  assume a: "waitResult env = None \<and> execResult env = None
            \<and> fst (beforeRequest (circuitBreaker s) (now_at s (ticks s + 1))) = Inr g
            \<and> (\<forall>e. \<exists>d. MarshalEnvelope ext e = Inr d)
            \<and> Serialize (Marshal ext) message = Inr payload"
  then have "waitResult env = None"
    "fst (beforeRequest (circuitBreaker s) (now_at s (ticks s + 1))) = Inr g"
    "Serialize (Marshal ext) message = Inr payload" "\<forall>e. \<exists>d. MarshalEnvelope ext e = Inr d"
    by blast+
  from SendMessageWithTTL_admitted [OF this, of queue ttl] a
  show "fst (SendMessageWithTTL ext env queue message ttl s) = None" by auto
next
  assume a: "waitResult env = None \<and> execResult env = None
            \<and> fst (beforeRequest (circuitBreaker s) (now_at s (ticks s + 1))) = Inr g
            \<and> (\<forall>e. \<exists>d. MarshalEnvelope ext e = Inr d)
            \<and> messages \<noteq> [] \<and> (\<forall>m \<in> set messages. \<exists>p. Serialize (Marshal ext) m = Inr p)"
  then have "messages \<noteq> []" "waitResult env = None"
    "fst (beforeRequest (circuitBreaker s) (now_at s (ticks s + 1))) = Inr g"
    "\<forall>m \<in> set messages. \<exists>p. Serialize (Marshal ext) m = Inr p"
    "\<forall>e. \<exists>d. MarshalEnvelope ext e = Inr d"
    by blast+
  from SendBatch_admitted [OF this, of queue] a
  show "fst (SendBatch ext env queue messages s) = None" by auto
qed

theorem success_metadata_id_fresh_witness:
  "inj (uuid_at demoSender) \<and> SuccessHandler (options demoSender)
   \<and> waitResult okEnv = None \<and> execResult okEnv = None
   \<and> fst (beforeRequest (circuitBreaker demoSender)
            (now_at demoSender (ticks demoSender + 1))) = Inr 1
   \<and> (\<forall>e. \<exists>d. MarshalEnvelope demoJson e = Inr d)
   \<and> Serialize (Marshal demoJson) (Str ''hello'') = Inr (bytes_of_string ''hello'')
   \<and> [Str ''a'', Str ''b'' :: GoValue Message] \<noteq> []
   \<and> Serialize (Marshal demoJson) (Str ''a'') = Inr (bytes_of_string ''a'')
   \<and> Serialize (Marshal demoJson) (Str ''b'') = Inr (bytes_of_string ''b'')
   \<and> SendMessageWithTTL demoJson okEnv ''q'' (Str ''hello'') Second demoSender
       = (None, snd (SendMessageWithTTL demoJson okEnv ''q'' (Str ''hello'') Second demoSender))
   \<and> (\<exists>envelope data md.
         trace (snd (SendMessageWithTTL demoJson okEnv ''q'' (Str ''hello'') Second demoSender))
           = [LimiterWait, PipelineExec ''queue:q'' [data] Second, SuccessHandlerCall md]
         \<and> SerializeMessageEnvelope demoJson envelope = Inr data
         \<and> ID envelope = ''u''
         \<and> md_MessageID md = ''uu'')
   \<and> SendBatch demoJson okEnv ''batch'' [Str ''a'', Str ''b''] demoSender
       = (None, snd (SendBatch demoJson okEnv ''batch'' [Str ''a'', Str ''b''] demoSender))
   \<and> (\<exists>(es :: (MessageEnvelope \<times> bytes) list) mds.
         trace (snd (SendBatch demoJson okEnv ''batch'' [Str ''a'', Str ''b''] demoSender))
           = [LimiterWait, PipelineExec ''queue:batch'' (map snd es) (86400 * Second)]
             @ map SuccessHandlerCall mds
         \<and> map (ID \<circ> fst) es = [''u'', ''uu'']
         \<and> map md_MessageID mds = [''uuu'', ''uuuu''])"
proof -
  have h: "SuccessHandler (options demoSender)"
    by (simp add: demoSender_def demoOptions_def)
  have f: "waitResult okEnv = None" "execResult okEnv = None"
    "fst (beforeRequest (circuitBreaker demoSender)
            (now_at demoSender (ticks demoSender + 1))) = Inr 1"
    "\<forall>e. \<exists>d. MarshalEnvelope demoJson e = Inr d"
    "Serialize (Marshal demoJson) (Str ''hello'') = Inr (bytes_of_string ''hello'')"
    "[Str ''a'', Str ''b'' :: GoValue Message] \<noteq> []"
    "Serialize (Marshal demoJson) (Str ''a'') = Inr (bytes_of_string ''a'')"
    "Serialize (Marshal demoJson) (Str ''b'') = Inr (bytes_of_string ''b'')"
    by (simp_all add: run_defs demo_defs)
  from f(7,8)
  have f': "\<forall>m \<in> set [Str ''a'', Str ''b'']. \<exists>p. Serialize (Marshal demoJson) m = Inr p"
    by simp
  have c: "trace demoSender = []" "getQueueKey demoSender ''batch'' = ''queue:batch''"
    "getQueueKey demoSender ''q'' = ''queue:q''"
    "MessageTTL (config demoSender) = 86400 * Second"
    "uuid_at demoSender = (\<lambda>n. replicate (n + 1) CHR ''u'')" "uuids demoSender = 0"
    by (simp_all add: demoSender_def demoOptions_def defaultConfig_def getQueueKey_def)
  have u: "[0..<2] = [0, 1::nat]" by (simp add: upt_conv_Cons del: upt_Suc)
  note T1 = success_metadata_id_fresh [OF inj_demo_uuid h,
      where ext = demoJson and env = okEnv and queue = "''q''" and message = "Str ''hello''"
        and ttl = Second and g = 1 and payload = "bytes_of_string ''hello''"
        and s' = "snd (SendMessageWithTTL demoJson okEnv ''q'' (Str ''hello'') Second demoSender)"]
  note T2 = success_metadata_id_fresh [OF inj_demo_uuid h,
      where ext = demoJson and env = okEnv and queue = "''batch''"
        and messages = "[Str ''a'', Str ''b'']" and g = 1
        and s'' = "snd (SendBatch demoJson okEnv ''batch'' [Str ''a'', Str ''b''] demoSender)"]
  from T1 f have "fst (SendMessageWithTTL demoJson okEnv ''q'' (Str ''hello'') Second demoSender)
      = None" by blast
  then have run1: "SendMessageWithTTL demoJson okEnv ''q'' (Str ''hello'') Second demoSender
       = (None, snd (SendMessageWithTTL demoJson okEnv ''q'' (Str ''hello'') Second demoSender))"
    by (simp add: prod_eq_iff)
  from T2 f f' have "fst (SendBatch demoJson okEnv ''batch'' [Str ''a'', Str ''b''] demoSender)
      = None" by blast
  then have run2: "SendBatch demoJson okEnv ''batch'' [Str ''a'', Str ''b''] demoSender
       = (None, snd (SendBatch demoJson okEnv ''batch'' [Str ''a'', Str ''b''] demoSender))"
    by (simp add: prod_eq_iff)
  have A: "\<exists>envelope data md.
         trace (snd (SendMessageWithTTL demoJson okEnv ''q'' (Str ''hello'') Second demoSender))
           = [LimiterWait, PipelineExec ''queue:q'' [data] Second, SuccessHandlerCall md]
         \<and> SerializeMessageEnvelope demoJson envelope = Inr data
         \<and> ID envelope = ''u''
         \<and> md_MessageID md = ''uu''"
    using T1 [THEN conjunct1, rule_format, OF run1]
    apply (simp add: c)
    apply (elim exE conjE)
    subgoal for envelope data md
      by (rule exI [of _ envelope], rule exI [of _ data], rule exI [of _ md]) simp
    done
  have B: "\<exists>(es :: (MessageEnvelope \<times> bytes) list) mds.
         trace (snd (SendBatch demoJson okEnv ''batch'' [Str ''a'', Str ''b''] demoSender))
           = [LimiterWait, PipelineExec ''queue:batch'' (map snd es) (86400 * Second)]
             @ map SuccessHandlerCall mds
         \<and> map (ID \<circ> fst) es = [''u'', ''uu'']
         \<and> map md_MessageID mds = [''uuu'', ''uuuu'']"
    using T2 [THEN conjunct2, THEN conjunct1, rule_format, OF run2]
    apply (simp add: c u del: upt_Suc)
    apply (elim exE conjE)
    subgoal for es mds
      by (rule exI [of _ es], rule exI [of _ mds]) simp
    done
  from inj_demo_uuid h f run1 A run2 B show ?thesis by (intro conjI)
qed

section \<open>The breaker under consecutive failures\<close>

lemma currentState_closed:
  assumes "state cb = StateClosed"
  shows "state (currentState cb now) = StateClosed"
    and "readyToTrip (currentState cb now) = readyToTrip cb"
    and "timeout (currentState cb now) = timeout cb"
  using assms by (auto simp: currentState_def toNewGeneration_def split: option.splits)

lemma currentState_within:
  assumes "state cb = StateClosed" and "\<forall>e. expiry cb = Some e \<longrightarrow> \<not> e < now"
  shows "currentState cb now = cb"
  using assms by (auto simp: currentState_def split: option.splits)

lemma closed_beforeRequest:
  assumes "state cb = StateClosed"
  shows "beforeRequest cb now =
     (Inr (generation (currentState cb now)),
      (currentState cb now)\<lparr>counts := countOnRequest (counts (currentState cb now))\<rparr>)"
  using currentState_closed(1) [OF assms, of now] by (simp add: beforeRequest_def Let_def)

lemma closed_afterRequest_failure:
  assumes "state cb = StateClosed" and "\<forall>e. expiry cb = Some e \<longrightarrow> \<not> e < now"
  shows "afterRequest cb (generation cb) False now =
     (if readyToTrip cb (countOnFailure (counts cb))
      then toNewGeneration (cb\<lparr>counts := countOnFailure (counts cb), state := StateOpen\<rparr>) now
      else cb\<lparr>counts := countOnFailure (counts cb)\<rparr>)"
  using assms
  by (auto simp: afterRequest_def currentState_def onFailure_def setState_def Let_def
      split: option.splits)

lemma open_beforeRequest:
  assumes "state cb = StateOpen" and "expiry cb = Some e" and "\<not> e < now"
  shows "beforeRequest cb now = (Inl ErrOpenState, cb)"
  using assms by (auto simp: beforeRequest_def currentState_def Let_def)

text \<open>
  The breaker after a failure that is counted in the closed state: \<open>cb0\<close> is the breaker
  as it is when the call is admitted, at the reading \<open>t1\<close>, and the failure is reported at
  the reading \<open>t2\<close>, inside the counting interval of \<open>cb0\<close>.
\<close>

lemma closed_failure_step:
  assumes closed: "state cb = StateClosed"
    and trip: "readyToTrip cb = (\<lambda>c. T < ConsecutiveFailures c)"
    and cb0: "cb0 = currentState cb t1"
    and w2: "\<forall>e. expiry cb0 = Some e \<longrightarrow> \<not> e < t2"
    and b: "beforeRequest cb t1 = (r, cb1)"
  shows "r = Inr (generation cb0)"
    and "ConsecutiveFailures (counts cb0) < T \<Longrightarrow>
           state (afterRequest cb1 (generation cb0) False t2) = StateClosed
         \<and> readyToTrip (afterRequest cb1 (generation cb0) False t2) = readyToTrip cb
         \<and> timeout (afterRequest cb1 (generation cb0) False t2) = timeout cb
         \<and> expiry (afterRequest cb1 (generation cb0) False t2) = expiry cb0
         \<and> ConsecutiveFailures (counts (afterRequest cb1 (generation cb0) False t2))
             = ConsecutiveFailures (counts cb0) + 1"
    and "T \<le> ConsecutiveFailures (counts cb0) \<Longrightarrow>
           state (afterRequest cb1 (generation cb0) False t2) = StateOpen
         \<and> expiry (afterRequest cb1 (generation cb0) False t2) = Some (t2 + timeout cb)"
proof -
  from closed_beforeRequest [OF closed, of t1] b
  have r: "r = Inr (generation cb0)" and cb1: "cb1 = cb0\<lparr>counts := countOnRequest (counts cb0)\<rparr>"
    by (simp_all add: cb0)
  show "r = Inr (generation cb0)" by (rule r)
  note c0 = currentState_closed [OF closed, of t1, folded cb0]
  have c1: "state cb1 = StateClosed" "generation cb1 = generation cb0"
    "\<forall>e. expiry cb1 = Some e \<longrightarrow> \<not> e < t2"
    using c0(1) w2 cb1 by simp_all
  have a: "afterRequest cb1 (generation cb0) False t2 =
     (if readyToTrip cb1 (countOnFailure (counts cb1))
      then toNewGeneration (cb1\<lparr>counts := countOnFailure (counts cb1), state := StateOpen\<rparr>) t2
      else cb1\<lparr>counts := countOnFailure (counts cb1)\<rparr>)"
    using closed_afterRequest_failure [OF c1(1) c1(3)] c1(2) by simp
  have tr: "readyToTrip cb0 = (\<lambda>c. T < ConsecutiveFailures c)" "timeout cb0 = timeout cb"
    using c0 trip by simp_all
  show "state (afterRequest cb1 (generation cb0) False t2) = StateClosed
         \<and> readyToTrip (afterRequest cb1 (generation cb0) False t2) = readyToTrip cb
         \<and> timeout (afterRequest cb1 (generation cb0) False t2) = timeout cb
         \<and> expiry (afterRequest cb1 (generation cb0) False t2) = expiry cb0
         \<and> ConsecutiveFailures (counts (afterRequest cb1 (generation cb0) False t2))
             = ConsecutiveFailures (counts cb0) + 1"
    if "ConsecutiveFailures (counts cb0) < T"
    using that c0(1) unfolding a
    by (simp add: cb1 tr trip countOnFailure_def countOnRequest_def)
  show "state (afterRequest cb1 (generation cb0) False t2) = StateOpen
         \<and> expiry (afterRequest cb1 (generation cb0) False t2) = Some (t2 + timeout cb)"
    if "T \<le> ConsecutiveFailures (counts cb0)"
    using that unfolding a
    by (simp add: cb1 tr countOnFailure_def countOnRequest_def toNewGeneration_def)
qed

lemma Execute_mono:
  assumes ex: "Execute req s = (r, s')"
    and req: "\<And>s r s'. req s = (r, s') \<Longrightarrow> ticks s \<le> ticks s' \<and> now_at s' = now_at s"
  shows "ticks s < ticks s' \<and> now_at s' = now_at s"
proof -
  obtain b cb1 where b: "beforeRequest (circuitBreaker s) (now_at s (ticks s)) = (b, cb1)"
    by (cases "beforeRequest (circuitBreaker s) (now_at s (ticks s))")
  show ?thesis
  proof (cases b)
    case (Inl e)
    with b ex show ?thesis by (auto simp: Execute_rejected)
  next
    case (Inr g)
    obtain r3 s3 where q: "req (s\<lparr>ticks := ticks s + 1, circuitBreaker := cb1\<rparr>) = (r3, s3)"
      by (cases "req (s\<lparr>ticks := ticks s + 1, circuitBreaker := cb1\<rparr>)")
    from Execute_ran [where req = req, OF b [unfolded Inr] q] ex
    have s': "s' = s3\<lparr>ticks := ticks s3 + 1,
      circuitBreaker := afterRequest (circuitBreaker s3) g (r3 = None) (now_at s3 (ticks s3))\<rparr>"
      by simp
    from req [OF q] s' show ?thesis by simp
  qed
qed

lemma runCall_mono:
  assumes "runCall ext env c s = (r, s')"
  shows "ticks s \<le> ticks s' \<and> now_at s' = now_at s"
proof (cases c)
  case (SendCall queue message ttl)
  let ?s2 = "emit LimiterWait (s\<lparr>ticks := ticks s + 1\<rparr>)"
  obtain r3 s3 where ex: "Execute (sendMessageInternal ext env queue message ttl) ?s2 = (r3, s3)"
    by (cases "Execute (sendMessageInternal ext env queue message ttl) ?s2")
  have m: "ticks ?s2 < ticks s3 \<and> now_at s3 = now_at ?s2"
    by (rule Execute_mono [OF ex]) (simp add: sendMessageInternal_keeps)
  from assms SendCall ex m show ?thesis
    by (auto simp: SendMessageWithTTL_def timeNow_def uuidNew_def emit_def Let_def
        split: option.splits if_splits)
next
  case (BatchCall queue messages)
  let ?s2 = "emit LimiterWait (s\<lparr>ticks := ticks s + 1\<rparr>)"
  obtain r3 s3 where ex: "Execute (sendBatchInternal ext env queue messages) ?s2 = (r3, s3)"
    by (cases "Execute (sendBatchInternal ext env queue messages) ?s2")
  have m: "ticks ?s2 < ticks s3 \<and> now_at s3 = now_at ?s2"
    by (rule Execute_mono [OF ex]) (simp add: sendBatchInternal_keeps)
  from assms BatchCall ex m show ?thesis
    by (auto simp: SendBatch_def timeNow_def emit_def Let_def notifyBatch_eq
        split: option.splits if_splits)
qed

lemma runCalls_mono:
  "ticks s \<le> ticks (runCalls ext calls s) \<and> now_at (runCalls ext calls s) = now_at s"
proof (induction calls arbitrary: s)
  case Nil
  then show ?case by simp
next
  case (Cons ec calls)
  obtain env c where ec: "ec = (env, c)" by (cases ec)
  obtain r s1 where run: "runCall ext env c s = (r, s1)" by (cases "runCall ext env c s")
  from runCall_mono [OF run] Cons.IH [of s1] ec run show ?case by simp
qed

lemma runCalls_append:
  "runCalls ext (xs @ ys) s = runCalls ext ys (runCalls ext xs s)"
  by (induction xs arbitrary: s) auto


lemma runCall_reaching_ticks:
  assumes "reachesBreaker env c" and "runCall ext env c s = (r, s')"
  shows "ticks s + 2 \<le> ticks s'"
proof (cases c)
  case (SendCall queue message ttl)
  let ?s2 = "emit LimiterWait (s\<lparr>ticks := ticks s + 1\<rparr>)"
  obtain r3 s3 where ex: "Execute (sendMessageInternal ext env queue message ttl) ?s2 = (r3, s3)"
    by (cases "Execute (sendMessageInternal ext env queue message ttl) ?s2")
  from assms(1) SendCall have w: "waitResult env = None" by simp
  have m: "ticks ?s2 < ticks s3 \<and> now_at s3 = now_at ?s2"
    by (rule Execute_mono [OF ex]) (simp add: sendMessageInternal_keeps)
  from assms(2) SendCall
  have "SendMessageWithTTL ext env queue message ttl s = (r, s')" by simp
  from this [unfolded SendMessageWithTTL_after_Execute [OF w ex]] m show ?thesis
    by (auto simp: emit_def split: option.splits if_splits)
next
  case (BatchCall queue messages)
  let ?s2 = "emit LimiterWait (s\<lparr>ticks := ticks s + 1\<rparr>)"
  obtain r3 s3 where ex: "Execute (sendBatchInternal ext env queue messages) ?s2 = (r3, s3)"
    by (cases "Execute (sendBatchInternal ext env queue messages) ?s2")
  from assms(1) BatchCall have w: "waitResult env = None" and ne: "messages \<noteq> []" by simp_all
  have m: "ticks ?s2 < ticks s3 \<and> now_at s3 = now_at ?s2"
    by (rule Execute_mono [OF ex]) (simp add: sendBatchInternal_keeps)
  from assms(2) BatchCall
  have "SendBatch ext env queue messages s = (r, s')" by simp
  from this [unfolded SendBatch_after_Execute [OF ne w ex]] m show ?thesis
    by (auto simp: emit_def notifyBatch_eq split: option.splits if_splits)
qed

text \<open>
  A failing request under a closed breaker, with the reading at which the failure is
  reported inside the counting interval that is current when the request is admitted.
\<close>

lemma Execute_closed_failure:
  assumes ex: "Execute req s2 = (r, s3)" and fail: "r \<noteq> None"
    and req: "\<And>s r s'. req s = (r, s') \<Longrightarrow>
        ticks s \<le> ticks s' \<and> now_at s' = now_at s \<and> circuitBreaker s' = circuitBreaker s"
    and closed: "state (circuitBreaker s2) = StateClosed"
    and trip: "readyToTrip (circuitBreaker s2) = (\<lambda>c. T < ConsecutiveFailures c)"
    and cb0: "cb0 = currentState (circuitBreaker s2) (now_at s2 (ticks s2))"
    and window: "\<forall>e n. expiry cb0 = Some e \<and> ticks s2 < n \<and> n < ticks s3
                   \<longrightarrow> \<not> e < now_at s2 n"
  shows "(ConsecutiveFailures (counts cb0) < T \<longrightarrow>
           state (circuitBreaker s3) = StateClosed
         \<and> readyToTrip (circuitBreaker s3) = readyToTrip (circuitBreaker s2)
         \<and> timeout (circuitBreaker s3) = timeout (circuitBreaker s2)
         \<and> expiry (circuitBreaker s3) = expiry cb0
         \<and> ConsecutiveFailures (counts (circuitBreaker s3))
             = ConsecutiveFailures (counts cb0) + 1)
     \<and> (T \<le> ConsecutiveFailures (counts cb0) \<longrightarrow>
           state (circuitBreaker s3) = StateOpen
         \<and> expiry (circuitBreaker s3)
             = Some (now_at s2 (ticks s3 - 1) + timeout (circuitBreaker s2)))"
proof -
  let ?cb = "circuitBreaker s2"
  obtain b cb1 where b: "beforeRequest ?cb (now_at s2 (ticks s2)) = (b, cb1)"
    by (cases "beforeRequest ?cb (now_at s2 (ticks s2))")
  from closed_beforeRequest [OF closed, of "now_at s2 (ticks s2)"] b
  have g: "b = Inr (generation cb0)" by (simp add: cb0)
  obtain r3 s3' where q: "req (s2\<lparr>ticks := ticks s2 + 1, circuitBreaker := cb1\<rparr>) = (r3, s3')"
    by (cases "req (s2\<lparr>ticks := ticks s2 + 1, circuitBreaker := cb1\<rparr>)")
  from Execute_ran [where req = req, OF b [unfolded g] q] ex
  have r: "r = r3" and s3: "s3 = s3'\<lparr>ticks := ticks s3' + 1,
      circuitBreaker := afterRequest (circuitBreaker s3') (generation cb0) (r3 = None)
        (now_at s3' (ticks s3'))\<rparr>"
    by simp_all
  from req [OF q] have k: "ticks s2 + 1 \<le> ticks s3'" "now_at s3' = now_at s2"
    "circuitBreaker s3' = cb1"
    by simp_all
  have t3: "ticks s3 = ticks s3' + 1" using s3 by simp
  from window t3 k(1) have w2: "\<forall>e. expiry cb0 = Some e \<longrightarrow> \<not> e < now_at s2 (ticks s3')"
    by auto
  note st = closed_failure_step [OF closed trip cb0 w2 b]
  from r fail obtain y where "r3 = Some y" by auto
  then have cb3:
    "circuitBreaker s3 = afterRequest cb1 (generation cb0) False (now_at s2 (ticks s3'))"
    using s3 k by simp
  have t3': "ticks s3 - 1 = ticks s3'" using t3 by simp
  show ?thesis
    using st(2) st(3)
    unfolding cb3 t3'
    by simp
qed

lemma failing_call_closed:
  assumes reach: "reachesBreaker env c"
    and run: "runCall ext env c s = (r, s')" and fail: "r \<noteq> None"
    and closed: "state (circuitBreaker s) = StateClosed"
    and trip: "readyToTrip (circuitBreaker s) = (\<lambda>c. T < ConsecutiveFailures c)"
    and cb0: "cb0 = currentState (circuitBreaker s) (now_at s (ticks s + 1))"
    and window: "\<forall>e n. expiry cb0 = Some e \<and> ticks s + 1 < n \<and> n < ticks s'
                   \<longrightarrow> \<not> e < now_at s n"
  shows "(ConsecutiveFailures (counts cb0) < T \<longrightarrow>
           state (circuitBreaker s') = StateClosed
         \<and> readyToTrip (circuitBreaker s') = readyToTrip (circuitBreaker s)
         \<and> timeout (circuitBreaker s') = timeout (circuitBreaker s)
         \<and> expiry (circuitBreaker s') = expiry cb0
         \<and> ConsecutiveFailures (counts (circuitBreaker s'))
             = ConsecutiveFailures (counts cb0) + 1)
     \<and> (T \<le> ConsecutiveFailures (counts cb0) \<longrightarrow>
           state (circuitBreaker s') = StateOpen
         \<and> expiry (circuitBreaker s')
             = Some (now_at s (ticks s' - 1) + timeout (circuitBreaker s)))"
proof -
  let ?s2 = "emit LimiterWait (s\<lparr>ticks := ticks s + 1\<rparr>)"
  have s2: "circuitBreaker ?s2 = circuitBreaker s" "now_at ?s2 = now_at s"
    "ticks ?s2 = ticks s + 1"
    by (simp_all add: emit_def)
  have core: "?thesis"
    if ex: "Execute req ?s2 = (r3, s3)"
      and req: "\<And>s r s'. req s = (r, s') \<Longrightarrow>
        ticks s \<le> ticks s' \<and> now_at s' = now_at s \<and> circuitBreaker s' = circuitBreaker s"
      and fin: "r = r3 \<and> circuitBreaker s' = circuitBreaker s3 \<and> ticks s' = ticks s3"
    for req r3 s3
  proof -
    from fin fail have r3: "r3 \<noteq> None" by simp
    have win: "\<forall>e n. expiry cb0 = Some e \<and> ticks ?s2 < n \<and> n < ticks s3
                   \<longrightarrow> \<not> e < now_at ?s2 n"
      using window fin s2 by auto
    have c2: "state (circuitBreaker ?s2) = StateClosed"
      using closed by (simp add: emit_def)
    have t2: "readyToTrip (circuitBreaker ?s2) = (\<lambda>c. T < ConsecutiveFailures c)"
      using trip by (simp add: emit_def)
    have cb0': "cb0 = currentState (circuitBreaker ?s2) (now_at ?s2 (ticks ?s2))"
      using cb0 by (simp add: emit_def)
    from Execute_closed_failure [where req = req, OF ex r3 req c2 t2 cb0' win]
    show ?thesis
      using fin by (simp add: emit_def)
  qed
  show ?thesis
  proof (cases c)
    case (SendCall queue message ttl)
    from reach SendCall have w: "waitResult env = None" by simp
    obtain r3 s3 where ex: "Execute (sendMessageInternal ext env queue message ttl) ?s2 = (r3, s3)"
      by (cases "Execute (sendMessageInternal ext env queue message ttl) ?s2")
    show ?thesis
    proof (rule core [OF ex])
      show "ticks s \<le> ticks s' \<and> now_at s' = now_at s \<and> circuitBreaker s' = circuitBreaker s"
        if "sendMessageInternal ext env queue message ttl s = (r, s')" for s r s'
        using sendMessageInternal_keeps [OF that] by simp
      from run SendCall
      have "SendMessageWithTTL ext env queue message ttl s = (r, s')" by simp
      from this [unfolded SendMessageWithTTL_after_Execute [OF w ex]] fail
      show "r = r3 \<and> circuitBreaker s' = circuitBreaker s3 \<and> ticks s' = ticks s3"
        by (auto simp: emit_def split: option.splits if_splits)
    qed
  next
    case (BatchCall queue messages)
    from reach BatchCall have w: "waitResult env = None" and ne: "messages \<noteq> []" by simp_all
    obtain r3 s3 where ex: "Execute (sendBatchInternal ext env queue messages) ?s2 = (r3, s3)"
      by (cases "Execute (sendBatchInternal ext env queue messages) ?s2")
    show ?thesis
    proof (rule core [OF ex])
      show "ticks s \<le> ticks s' \<and> now_at s' = now_at s \<and> circuitBreaker s' = circuitBreaker s"
        if "sendBatchInternal ext env queue messages s = (r, s')" for s r s'
        using sendBatchInternal_keeps [OF that] by simp
      from run BatchCall
      have "SendBatch ext env queue messages s = (r, s')" by simp
      from this [unfolded SendBatch_after_Execute [OF ne w ex]] fail
      show "r = r3 \<and> circuitBreaker s' = circuitBreaker s3 \<and> ticks s' = ticks s3"
        by (auto simp: emit_def split: option.splits if_splits)
    qed
  qed
qed

lemma runResults_append:
  "runResults ext (xs @ ys) s = runResults ext xs s @ runResults ext ys (runCalls ext xs s)"
  by (induction xs arbitrary: s) auto

lemma runCalls_reaching_ticks:
  assumes "calls \<noteq> []" and "\<forall>ec \<in> set calls. reachesBreaker (fst ec) (snd ec)"
  shows "ticks s + 2 \<le> ticks (runCalls ext calls s)"
proof -
  from assms(1) obtain ec rest where calls: "calls = ec # rest" by (cases calls) auto
  obtain env c where ec: "ec = (env, c)" by (cases ec)
  obtain r s1 where run: "runCall ext env c s = (r, s1)" by (cases "runCall ext env c s")
  from assms(2) calls ec have "reachesBreaker env c" by simp
  from runCall_reaching_ticks [OF this run] runCalls_mono [of s1 ext rest] calls ec run
  show ?thesis by simp
qed

text \<open>
  Failing calls under a closed breaker, as long as the counter stays at or below the
  threshold: every failure is counted and the counting interval stays the one that was
  current when the first call was admitted.
\<close>

lemma closed_run:
  assumes ne: "calls \<noteq> []"
    and reach: "\<forall>ec \<in> set calls. reachesBreaker (fst ec) (snd ec)"
    and fails: "\<forall>r \<in> set (runResults ext calls s). r \<noteq> None"
    and closed: "state (circuitBreaker s) = StateClosed"
    and trip: "readyToTrip (circuitBreaker s) = (\<lambda>c. T < ConsecutiveFailures c)"
    and cb0: "cb0 = currentState (circuitBreaker s) (now_at s (ticks s + 1))"
    and room: "ConsecutiveFailures (counts cb0) + length calls \<le> T"
    and window: "\<forall>e n. expiry cb0 = Some e \<and> ticks s + 1 < n
                   \<and> n < ticks (runCalls ext calls s) \<longrightarrow> \<not> e < now_at s n"
  shows "state (circuitBreaker (runCalls ext calls s)) = StateClosed
     \<and> readyToTrip (circuitBreaker (runCalls ext calls s)) = readyToTrip (circuitBreaker s)
     \<and> timeout (circuitBreaker (runCalls ext calls s)) = timeout (circuitBreaker s)
     \<and> expiry (circuitBreaker (runCalls ext calls s)) = expiry cb0
     \<and> ConsecutiveFailures (counts (circuitBreaker (runCalls ext calls s)))
         = ConsecutiveFailures (counts cb0) + length calls"
  using ne reach fails closed trip cb0 room window
proof (induction calls arbitrary: s cb0 rule: list_nonempty_induct)
  case (single ec)
  obtain env c where ec: "ec = (env, c)" by (cases ec)
  obtain r s1 where run: "runCall ext env c s = (r, s1)" by (cases "runCall ext env c s")
  from single.prems(1) ec have reach: "reachesBreaker env c" by simp
  from single.prems(2) ec run have fail: "r \<noteq> None" by simp
  have win: "\<forall>e n. expiry cb0 = Some e \<and> ticks s + 1 < n \<and> n < ticks s1
                   \<longrightarrow> \<not> e < now_at s n"
    using single.prems(7) ec run by simp
  from single.prems(6) have lt: "ConsecutiveFailures (counts cb0) < T" by simp
  from failing_call_closed [OF reach run fail single.prems(3) single.prems(4) single.prems(5) win]
    lt
  show ?case using ec run by simp
next
  case (cons ec calls)
  obtain env c where ec: "ec = (env, c)" by (cases ec)
  obtain r s1 where run: "runCall ext env c s = (r, s1)" by (cases "runCall ext env c s")
  have fin: "runCalls ext (ec # calls) s = runCalls ext calls s1"
    using ec run by simp
  from cons.prems(1) ec have reach1: "reachesBreaker env c"
    and reach2: "\<forall>ec \<in> set calls. reachesBreaker (fst ec) (snd ec)" by simp_all
  from cons.prems(2) ec run have fail1: "r \<noteq> None"
    and fail2: "\<forall>r \<in> set (runResults ext calls s1). r \<noteq> None" by simp_all
  note m1 = runCall_mono [OF run]
  note t1 = runCall_reaching_ticks [OF reach1 run]
  note t2 = runCalls_reaching_ticks [OF cons.hyps reach2, of s1 ext]
  have win1: "\<forall>e n. expiry cb0 = Some e \<and> ticks s + 1 < n \<and> n < ticks s1
                   \<longrightarrow> \<not> e < now_at s n"
    using cons.prems(7) t2 unfolding fin by auto
  from cons.prems(6) have lt: "ConsecutiveFailures (counts cb0) < T" by simp
  from failing_call_closed [OF reach1 run fail1 cons.prems(3) cons.prems(4) cons.prems(5) win1]
    lt
  have step: "state (circuitBreaker s1) = StateClosed"
    "readyToTrip (circuitBreaker s1) = readyToTrip (circuitBreaker s)"
    "timeout (circuitBreaker s1) = timeout (circuitBreaker s)"
    "expiry (circuitBreaker s1) = expiry cb0"
    "ConsecutiveFailures (counts (circuitBreaker s1)) = ConsecutiveFailures (counts cb0) + 1"
    by simp_all
  have "\<forall>e. expiry (circuitBreaker s1) = Some e \<longrightarrow> \<not> e < now_at s1 (ticks s1 + 1)"
    using cons.prems(7) t1 t2 m1 step(4) unfolding fin by auto
  from currentState_within [OF step(1) this]
  have cb1: "circuitBreaker s1 = currentState (circuitBreaker s1) (now_at s1 (ticks s1 + 1))"
    by simp
  have win2: "\<forall>e n. expiry (circuitBreaker s1) = Some e \<and> ticks s1 + 1 < n
                   \<and> n < ticks (runCalls ext calls s1) \<longrightarrow> \<not> e < now_at s1 n"
    using cons.prems(7) t1 m1 step(4) unfolding fin by auto
  have trip1: "readyToTrip (circuitBreaker s1) = (\<lambda>c. T < ConsecutiveFailures c)"
    using step(2) cons.prems(4) by simp
  have room1: "ConsecutiveFailures (counts (circuitBreaker s1)) + length calls \<le> T"
    using step(5) cons.prems(6) by simp
  from cons.IH [OF reach2 fail2 step(1) trip1 cb1 room1 win2]
  show ?case
    unfolding fin using step by simp
qed

lemma open_call_rejected:
  assumes reach: "reachesBreaker env c"
    and "state (circuitBreaker s1) = StateOpen"
    and "expiry (circuitBreaker s1) = Some e"
    and "\<not> e < now_at s1 (ticks s1 + 1)"
  shows "runCall ext env c s1 =
     (Some ErrOpenState,
      (if ErrorHandler (options s1)
       then emit (ErrorHandlerCall ErrOpenState)
              (s1\<lparr>ticks := ticks s1 + 2, trace := trace s1 @ [LimiterWait],
                  errorCount := errorCount s1 + 1, lastError := Error ErrOpenState\<rparr>)
       else s1\<lparr>ticks := ticks s1 + 2, trace := trace s1 @ [LimiterWait],
                errorCount := errorCount s1 + 1, lastError := Error ErrOpenState\<rparr>))"
proof -
  let ?s2 = "emit LimiterWait (s1\<lparr>ticks := Suc (ticks s1)\<rparr>)"
  have b: "beforeRequest (circuitBreaker ?s2) (now_at ?s2 (ticks ?s2))
             = (Inl ErrOpenState, circuitBreaker s1)"
    using open_beforeRequest [OF assms(2) assms(3) assms(4)] by (simp add: emit_def)
  have ex: "Execute req ?s2 = (Some ErrOpenState,
      ?s2\<lparr>ticks := ticks ?s2 + 1, circuitBreaker := circuitBreaker s1\<rparr>)" for req
    by (rule Execute_rejected [OF b])
  show ?thesis
  proof (cases c)
    case (SendCall queue message ttl)
    with reach have w: "waitResult env = None" by simp
    show ?thesis
      unfolding SendCall runCall.simps SendMessageWithTTL_def
      by (simp add: timeNow_def Let_def w ex) (simp add: emit_def)
  next
    case (BatchCall queue messages)
    with reach have w: "waitResult env = None" and ne: "messages \<noteq> []" by simp_all
    show ?thesis
      unfolding BatchCall runCall.simps SendBatch_def
      by (simp add: timeNow_def Let_def w ne ex) (simp add: emit_def)
  qed
qed


lemma transportFails_fails:
  assumes "transportFails (env, c)"
  shows "reachesBreaker env c" and "fst (runCall ext env c s) \<noteq> None"
proof -
  from assms have reach: "reachesBreaker env c" and x: "execResult env \<noteq> None"
    by (simp_all add: transportFails_def)
  show "reachesBreaker env c" by (rule reach)
  let ?s2 = "emit LimiterWait (s\<lparr>ticks := ticks s + 1\<rparr>)"
  have inner: "r3 \<noteq> None"
    if ex: "Execute req ?s2 = (r3, s3)"
      and req: "\<And>s r s'. req s = (r, s') \<Longrightarrow> r \<noteq> None"
    for req r3 s3
  proof -
    obtain b cb1 where b: "beforeRequest (circuitBreaker ?s2) (now_at ?s2 (ticks ?s2)) = (b, cb1)"
      by (cases "beforeRequest (circuitBreaker ?s2) (now_at ?s2 (ticks ?s2))")
    show ?thesis
    proof (cases b)
      case (Inl e)
      with b ex show ?thesis by (auto simp: Execute_rejected)
    next
      case (Inr g)
      obtain r4 s4 where q: "req (?s2\<lparr>ticks := ticks ?s2 + 1, circuitBreaker := cb1\<rparr>) = (r4, s4)"
        by (cases "req (?s2\<lparr>ticks := ticks ?s2 + 1, circuitBreaker := cb1\<rparr>)")
      from Execute_ran [where req = req, OF b [unfolded Inr] q] ex have "r3 = r4" by simp
      with req [OF q] show ?thesis by simp
    qed
  qed
  show "fst (runCall ext env c s) \<noteq> None"
  proof (cases c)
    case (SendCall queue message ttl)
    from reach SendCall have w: "waitResult env = None" by simp
    obtain r3 s3 where ex: "Execute (sendMessageInternal ext env queue message ttl) ?s2 = (r3, s3)"
      by (cases "Execute (sendMessageInternal ext env queue message ttl) ?s2")
    have "r3 \<noteq> None"
      by (rule inner [OF ex]) (use sendMessageInternal_shape x in blast)
    then show ?thesis
      unfolding SendCall runCall.simps SendMessageWithTTL_after_Execute [OF w ex]
      by (auto split: option.splits)
  next
    case (BatchCall queue messages)
    from reach BatchCall have w: "waitResult env = None" and ne: "messages \<noteq> []" by simp_all
    obtain r3 s3 where ex: "Execute (sendBatchInternal ext env queue messages) ?s2 = (r3, s3)"
      by (cases "Execute (sendBatchInternal ext env queue messages) ?s2")
    have "r3 \<noteq> None"
      by (rule inner [OF ex]) (use sendBatchInternal_shape x in blast)
    then show ?thesis
      unfolding BatchCall runCall.simps SendBatch_after_Execute [OF ne w ex]
      by (auto split: option.splits)
  qed
qed

text \<open>
  C1, as the code has it. Let the trip policy be "more than \<open>T\<close> consecutive failures"
  (the sender fixes \<open>T = 3\<close>) and the breaker closed. Take \<open>T + 1\<close> calls in a row that
  reach the breaker and fail, whatever fails inside the breaker, the transport or the
  codec. Let the consecutive-failure counter be at zero when the first of them is
  admitted, and let every later clock reading of the run fall inside the counting
  interval that is current at that admission (or let there be no interval). Then after
  the run the breaker is open, and its expiry is the time of the last failure plus the
  open timeout. From then on, every call that reaches the breaker no later than that
  expiry returns the breaker's open error, sends no pipeline, leaves the store as it was
  and leaves the breaker open.
\<close>

theorem breaker_opens_after_threshold:
  assumes trip: "readyToTrip (circuitBreaker s) = (\<lambda>c. T < ConsecutiveFailures c)"
    and closed: "state (circuitBreaker s) = StateClosed"
    and fresh: "ConsecutiveFailures
        (counts (currentState (circuitBreaker s) (now_at s (ticks s + 1)))) = 0"
    and len: "length calls = T + 1"
    and reach: "\<forall>ec \<in> set calls. reachesBreaker (fst ec) (snd ec)"
    and fails: "\<forall>r \<in> set (runResults ext calls s). r \<noteq> None"
    and window: "\<forall>e n.
        expiry (currentState (circuitBreaker s) (now_at s (ticks s + 1))) = Some e
        \<and> ticks s + 1 < n \<and> n < ticks (runCalls ext calls s) \<longrightarrow> now_at s n \<le> e"
  shows "state (circuitBreaker (runCalls ext calls s)) = StateOpen
     \<and> expiry (circuitBreaker (runCalls ext calls s))
         = Some (now_at s (ticks (runCalls ext calls s) - 1) + timeout (circuitBreaker s))
     \<and> (\<forall>s1 env c.
           circuitBreaker s1 = circuitBreaker (runCalls ext calls s)
           \<and> reachesBreaker env c
           \<and> now_at s1 (ticks s1 + 1)
               \<le> now_at s (ticks (runCalls ext calls s) - 1) + timeout (circuitBreaker s)
           \<longrightarrow> fst (runCall ext env c s1) = Some ErrOpenState
             \<and> lists (snd (runCall ext env c s1)) = lists s1
             \<and> filter isPipelineExec (trace (snd (runCall ext env c s1)))
                 = filter isPipelineExec (trace s1)
             \<and> circuitBreaker (snd (runCall ext env c s1)) = circuitBreaker s1)"
proof -
  define cb0 where "cb0 = currentState (circuitBreaker s) (now_at s (ticks s + 1))"
  from len obtain front ec where calls: "calls = front @ [ec]" and lf: "length front = T"
    by (cases calls rule: rev_cases) auto
  obtain env c where ec: "ec = (env, c)" by (cases ec)
  let ?s1 = "runCalls ext front s"
  let ?s' = "runCalls ext calls s"
  obtain r where run: "runCall ext env c ?s1 = (r, ?s')"
    by (cases "runCall ext env c ?s1") (simp add: calls ec runCalls_append)
  from reach calls ec have reach1: "\<forall>ec \<in> set front. reachesBreaker (fst ec) (snd ec)"
    and reach2: "reachesBreaker env c" by simp_all
  from fails calls ec run have fail1: "\<forall>r \<in> set (runResults ext front s). r \<noteq> None"
    and fail2: "r \<noteq> None" by (simp_all add: runResults_append)
  note m1 = runCalls_mono [of s ext front]
  note t2 = runCall_reaching_ticks [OF reach2 run]
  have win: "\<forall>e n. expiry cb0 = Some e \<and> ticks s + 1 < n \<and> n < ticks ?s'
                   \<longrightarrow> \<not> e < now_at s n"
    using window by (auto simp: not_less cb0_def)
  have st: "state (circuitBreaker ?s1) = StateClosed
     \<and> readyToTrip (circuitBreaker ?s1) = (\<lambda>c. T < ConsecutiveFailures c)
     \<and> timeout (circuitBreaker ?s1) = timeout (circuitBreaker s)
     \<and> (\<forall>e n. expiry (currentState (circuitBreaker ?s1) (now_at ?s1 (ticks ?s1 + 1))) = Some e
            \<and> ticks ?s1 + 1 < n \<and> n < ticks ?s' \<longrightarrow> \<not> e < now_at ?s1 n)
     \<and> ConsecutiveFailures
          (counts (currentState (circuitBreaker ?s1) (now_at ?s1 (ticks ?s1 + 1)))) = T"
  proof (cases "front = []")
    case True
    with lf closed trip fresh win show ?thesis by (simp add: cb0_def)
  next
    case False
    have win1: "\<forall>e n. expiry cb0 = Some e \<and> ticks s + 1 < n \<and> n < ticks ?s1
                   \<longrightarrow> \<not> e < now_at s n"
      using win t2 by auto
    have room: "ConsecutiveFailures (counts cb0) + length front \<le> T"
      using fresh lf by (simp add: cb0_def)
    from closed_run [OF False reach1 fail1 closed trip cb0_def room win1] fresh lf
    have k: "state (circuitBreaker ?s1) = StateClosed"
      "readyToTrip (circuitBreaker ?s1) = readyToTrip (circuitBreaker s)"
      "timeout (circuitBreaker ?s1) = timeout (circuitBreaker s)"
      "expiry (circuitBreaker ?s1) = expiry cb0"
      "ConsecutiveFailures (counts (circuitBreaker ?s1)) = T"
      by (simp_all add: cb0_def)
    note t1 = runCalls_reaching_ticks [OF False reach1, of s ext]
    have "\<forall>e. expiry (circuitBreaker ?s1) = Some e \<longrightarrow> \<not> e < now_at ?s1 (ticks ?s1 + 1)"
      using win t1 t2 m1 k(4) by auto
    from currentState_within [OF k(1) this]
    have same: "currentState (circuitBreaker ?s1) (now_at ?s1 (ticks ?s1 + 1)) = circuitBreaker ?s1" .
    show ?thesis
      unfolding same using k trip win t1 m1 by auto
  qed
  then have st1: "state (circuitBreaker ?s1) = StateClosed"
    and st2: "readyToTrip (circuitBreaker ?s1) = (\<lambda>c. T < ConsecutiveFailures c)"
    and st3: "timeout (circuitBreaker ?s1) = timeout (circuitBreaker s)"
    and st4: "\<forall>e n. expiry (currentState (circuitBreaker ?s1) (now_at ?s1 (ticks ?s1 + 1))) = Some e
            \<and> ticks ?s1 + 1 < n \<and> n < ticks ?s' \<longrightarrow> \<not> e < now_at ?s1 n"
    and st5: "T \<le> ConsecutiveFailures
          (counts (currentState (circuitBreaker ?s1) (now_at ?s1 (ticks ?s1 + 1))))"
    by simp_all
  from failing_call_closed [OF reach2 run fail2 st1 st2 refl st4] st5 st3 m1
  have opened: "state (circuitBreaker ?s') = StateOpen"
    "expiry (circuitBreaker ?s')
       = Some (now_at s (ticks ?s' - 1) + timeout (circuitBreaker s))"
    by simp_all
  have after: "fst (runCall ext env' c' s1) = Some ErrOpenState
             \<and> lists (snd (runCall ext env' c' s1)) = lists s1
             \<and> filter isPipelineExec (trace (snd (runCall ext env' c' s1)))
                 = filter isPipelineExec (trace s1)
             \<and> circuitBreaker (snd (runCall ext env' c' s1)) = circuitBreaker s1"
    if "circuitBreaker s1 = circuitBreaker ?s'" and "reachesBreaker env' c'"
      and "now_at s1 (ticks s1 + 1)
               \<le> now_at s (ticks ?s' - 1) + timeout (circuitBreaker s)"
    for s1 env' c'
  proof -
    have o: "state (circuitBreaker s1) = StateOpen"
      "expiry (circuitBreaker s1) = Some (now_at s (ticks ?s' - 1) + timeout (circuitBreaker s))"
      using that(1) opened by simp_all
    have nl: "\<not> now_at s (ticks ?s' - 1) + timeout (circuitBreaker s) < now_at s1 (ticks s1 + 1)"
      using that(3) by simp
    show ?thesis
      unfolding open_call_rejected [OF that(2) o nl]
      by (simp add: emit_def)
  qed
  show ?thesis
    using opened after by blast
qed

lemma late_run:
  "runResults demoJson [nilSend, failingSend, nilSend, failingSend] lateSender
     = [Some (Wrapf ''failed to serialize message: '' (Errorf ''message cannot be nil'')),
        Some (Wrapf ''failed to send message to queue q: '' (Errorf ''connection refused'')),
        Some (Wrapf ''failed to serialize message: '' (Errorf ''message cannot be nil'')),
        Some (Wrapf ''failed to send message to queue q: '' (Errorf ''connection refused''))]"
  "ticks (runCalls demoJson [nilSend, failingSend, nilSend, failingSend] lateSender) = 19"
  by (simp_all add: nilSend_def failingSend_def lateSender_def run_defs demo_defs)

theorem breaker_opens_after_threshold_witness:
  "readyToTrip (circuitBreaker lateSender) = (\<lambda>c. 3 < ConsecutiveFailures c)
   \<and> state (circuitBreaker lateSender) = StateClosed
   \<and> expiry (circuitBreaker lateSender) = Some (Millisecond + 120 * Second)
   \<and> now_at lateSender (ticks lateSender + 1) = 200 * Second + 4 * Millisecond
   \<and> ConsecutiveFailures (counts (currentState (circuitBreaker lateSender)
        (now_at lateSender (ticks lateSender + 1)))) = 0
   \<and> expiry (currentState (circuitBreaker lateSender) (now_at lateSender (ticks lateSender + 1)))
       = Some (200 * Second + 4 * Millisecond + 120 * Second)
   \<and> reachesBreaker (fst nilSend) (snd nilSend)
   \<and> reachesBreaker (fst failingSend) (snd failingSend)
   \<and> runResults demoJson [nilSend, failingSend, nilSend, failingSend] lateSender
       = [Some (Wrapf ''failed to serialize message: '' (Errorf ''message cannot be nil'')),
          Some (Wrapf ''failed to send message to queue q: '' (Errorf ''connection refused'')),
          Some (Wrapf ''failed to serialize message: '' (Errorf ''message cannot be nil'')),
          Some (Wrapf ''failed to send message to queue q: '' (Errorf ''connection refused''))]
   \<and> reachesBreaker okEnv (SendCall ''q'' (Str ''hello'') Second)
   \<and> state (circuitBreaker
        (runCalls demoJson [nilSend, failingSend, nilSend, failingSend] lateSender))
       = StateOpen
   \<and> expiry (circuitBreaker
        (runCalls demoJson [nilSend, failingSend, nilSend, failingSend] lateSender))
       = Some (200 * Second + 18 * Millisecond + 60 * Second)
   \<and> fst (runCall demoJson okEnv (SendCall ''q'' (Str ''hello'') Second)
        (runCalls demoJson [nilSend, failingSend, nilSend, failingSend] lateSender))
       = Some ErrOpenState"
proof -
  let ?calls = "[nilSend, failingSend, nilSend, failingSend]"
  let ?s' = "runCalls demoJson ?calls lateSender"
  have trip: "readyToTrip (circuitBreaker lateSender) = (\<lambda>c. 3 < ConsecutiveFailures c)"
    by (simp add: lateSender_def demoSender_def senderReadyToTrip_def fun_eq_iff)
  have closed: "state (circuitBreaker lateSender) = StateClosed"
    and ex0: "expiry (circuitBreaker lateSender) = Some (Millisecond + 120 * Second)"
    and t1: "now_at lateSender (ticks lateSender + 1) = 200 * Second + 4 * Millisecond"
    by (simp_all add: lateSender_def demoSender_def)
  have cb0: "currentState (circuitBreaker lateSender) (now_at lateSender (ticks lateSender + 1))
      = (circuitBreaker lateSender)\<lparr>generation := 2, counts := clearCounts,
          expiry := Some (200 * Second + 4 * Millisecond + 120 * Second)\<rparr>"
    by (simp add: lateSender_def demoSender_def currentState_def toNewGeneration_def
        Second_def Millisecond_def)
  have fresh: "ConsecutiveFailures (counts (currentState (circuitBreaker lateSender)
        (now_at lateSender (ticks lateSender + 1)))) = 0"
    and ex1: "expiry (currentState (circuitBreaker lateSender)
        (now_at lateSender (ticks lateSender + 1)))
       = Some (200 * Second + 4 * Millisecond + 120 * Second)"
    unfolding cb0 by (simp_all add: clearCounts_def)
  have len: "length ?calls = 3 + 1" by simp
  have reach0: "reachesBreaker (fst nilSend) (snd nilSend)"
    "reachesBreaker (fst failingSend) (snd failingSend)"
    by (simp_all add: nilSend_def failingSend_def okEnv_def downEnv_def)
  then have reach: "\<forall>ec \<in> set ?calls. reachesBreaker (fst ec) (snd ec)"
    by simp
  have fails: "\<forall>r \<in> set (runResults demoJson ?calls lateSender). r \<noteq> None"
    unfolding late_run by simp
  have window: "\<forall>e n. expiry (currentState (circuitBreaker lateSender)
          (now_at lateSender (ticks lateSender + 1))) = Some e
      \<and> ticks lateSender + 1 < n \<and> n < ticks ?s' \<longrightarrow> now_at lateSender n \<le> e"
    unfolding late_run ex1
    by (auto simp: lateSender_def demoSender_def Millisecond_def Second_def)
  have reach': "reachesBreaker okEnv (SendCall ''q'' (Str ''hello'') Second)"
    by (simp add: okEnv_def)
  have now: "now_at ?s' = now_at lateSender"
    using runCalls_mono [of lateSender demoJson ?calls] by simp
  have soon: "now_at ?s' (ticks ?s' + 1)
      \<le> now_at lateSender (ticks ?s' - 1) + timeout (circuitBreaker lateSender)"
    unfolding now late_run
    by (simp add: lateSender_def demoSender_def Millisecond_def Second_def)
  have t18: "now_at lateSender (ticks ?s' - 1) + timeout (circuitBreaker lateSender)
      = 200 * Second + 18 * Millisecond + 60 * Second"
    unfolding late_run by (simp add: lateSender_def demoSender_def)
  from breaker_opens_after_threshold [OF trip closed fresh len reach fails window]
  have "state (circuitBreaker ?s') = StateOpen"
    and "expiry (circuitBreaker ?s') = Some (200 * Second + 18 * Millisecond + 60 * Second)"
    and "fst (runCall demoJson okEnv (SendCall ''q'' (Str ''hello'') Second) ?s')
       = Some ErrOpenState"
    using reach' soon unfolding t18 by blast+
  with trip closed ex0 t1 fresh ex1 reach0 late_run(1) reach' show ?thesis by (intro conjI)
qed

text \<open>
  C1 as stated fails when the counting interval of the closed state ends between the
  failures: with the default interval of two minutes and one failing call every fifty
  seconds, the counters are reset before the third failure is counted, and after four
  consecutive failures the breaker is still closed with a count of two; the fifth call
  goes through to the transport.
\<close>

theorem breaker_stays_closed_counterexample:
  "transportFails failingSend
   \<and> readyToTrip (circuitBreaker spacedSender) = senderReadyToTrip
   \<and> state (circuitBreaker spacedSender) = StateClosed
   \<and> ConsecutiveFailures (counts (circuitBreaker spacedSender)) = 0
   \<and> state (circuitBreaker
        (runCalls demoJson [failingSend, failingSend, failingSend, failingSend] spacedSender))
       = StateClosed
   \<and> ConsecutiveFailures (counts (circuitBreaker
        (runCalls demoJson [failingSend, failingSend, failingSend, failingSend] spacedSender)))
       = 2
   \<and> fst (runCall demoJson downEnv (SendCall ''q'' (Str ''hello'') Second)
        (runCalls demoJson [failingSend, failingSend, failingSend, failingSend] spacedSender))
       = Some (Wrapf ''failed to send message to queue q: '' (Errorf ''connection refused''))"
  by (simp add: failingSend_def transportFails_def run_defs demo_defs spacedSender_def)

end
